theory Spec2Isabelle
  imports Main "HOL-Library.List_Lexorder"
begin

section \<open>Strings of the front end\<close>

text \<open>
  A JavaScript string is a sequence of UTF-16 code units; a code unit is modelled as a
  natural number, and SQL \<^verbatim>\<open>TEXT\<close> values use the same type. \<open>js\<close> turns an
  ASCII literal into such a string.
\<close>

type_synonym ustring = "nat list"

definition js :: "string \<Rightarrow> ustring" where
  "js s = map of_char s"

text \<open>
  \<^verbatim>\<open>String.prototype.trim\<close> removes the ECMAScript WhiteSpace and LineTerminator code
  units from both ends: TAB, LF, VT, FF, CR, SP, NBSP, U+1680, U+2000..U+200A, U+2028,
  U+2029, U+202F, U+205F, U+3000 and U+FEFF.
\<close>

definition is_white_space :: "nat \<Rightarrow> bool" where
  "is_white_space c =
     (c = 9 \<or> c = 10 \<or> c = 11 \<or> c = 12 \<or> c = 13 \<or> c = 32 \<or> c = 160 \<or> c = 5760
      \<or> (8192 \<le> c \<and> c \<le> 8202)
      \<or> c = 8232 \<or> c = 8233 \<or> c = 8239 \<or> c = 8287 \<or> c = 12288 \<or> c = 65279)"

definition trim :: "ustring \<Rightarrow> ustring" where
  "trim s = rev (dropWhile is_white_space (rev (dropWhile is_white_space s)))"

text \<open>\<^verbatim>\<open>s.split(sep)\<close> for a one-character separator: always at least one piece.\<close>

fun split :: "nat \<Rightarrow> ustring \<Rightarrow> ustring list" where
  "split sep [] = [[]]"
| "split sep (c # cs) =
     (if c = sep then [] # split sep cs
      else (case split sep cs of
              [] \<Rightarrow> [[c]]
            | w # ws \<Rightarrow> (c # w) # ws))"


section \<open>CreateOpportunityModal\<close>



text \<open>\<^verbatim>\<open>!s.trim()\<close>: the trimmed string is empty.\<close>

definition not_trim :: "ustring \<Rightarrow> bool" where
  "not_trim s = (trim s = [])"






section \<open>AddArtifactModal\<close>







section \<open>Phases of the front end\<close>

definition PHASE_ORDER :: "ustring list" where
  "PHASE_ORDER =
     [js ''pre_assessment'', js ''discovery'', js ''solution_design'', js ''implementation'']"

text \<open>
  \<^verbatim>\<open>OpportunityDrawer.handleMoveToPhase\<close>: \<^verbatim>\<open>onPhaseChange(selectedPhase)\<close> is called
  when the selected phase is not the current one; the result is the phase sent, if any.
\<close>

definition handleMoveToPhase :: "ustring \<Rightarrow> ustring \<Rightarrow> ustring option" where
  "handleMoveToPhase selectedPhase currentPhase =
     (if selectedPhase \<noteq> currentPhase then Some selectedPhase else None)"

text \<open>The \<^verbatim>\<open>id\<close>s of \<^verbatim>\<open>ARTIFACT_TYPES\<close>.\<close>

definition ARTIFACT_TYPES :: "ustring list" where
  "ARTIFACT_TYPES =
     [js ''meeting_note'', js ''pain_point'', js ''process_map'', js ''requirement'',
      js ''risk'', js ''deliverable'', js ''stakeholder_note'', js ''other'']"

section \<open>The relational schema\<close>

text \<open>
  The tables of the multi-user schema that hold opportunities, phase progress, artifacts
  and the active-opportunity pointer. A nullable column is an \<open>option\<close>; a
  \<^verbatim>\<open>NOT NULL\<close> column is not. \<^verbatim>\<open>UUID\<close>s, timestamps and \<^verbatim>\<open>SERIAL\<close> keys are
  natural numbers; \<^verbatim>\<open>INTEGER\<close> is an \<open>int\<close> checked against the 32-bit range where
  the schema computes with it. \<^verbatim>\<open>auth.users\<close> belongs to the hosting service; only
  the list of its ids is kept, for the foreign keys that refer to it. The tables of tasks
  and of chat threads are left out: nothing below reads or writes them. The single-user
  schema is the same without the \<^verbatim>\<open>user_id\<close> columns and without the policies.
\<close>

type_synonym uuid = nat
type_synonym timestamp = nat

record opportunities_row =
  o_id :: ustring
  o_user_id :: uuid
  o_name :: ustring
  o_client_name :: ustring
  o_description :: "ustring option"
  o_current_phase :: ustring
  o_status :: ustring
  o_created_at :: "timestamp option"
  o_context_summary :: "ustring option"
  o_stakeholders :: "ustring list option"
  o_key_insights :: "ustring list option"

record phase_progress_row =
  pp_id :: nat
  pp_opportunity_id :: "ustring option"
  pp_phase :: ustring
  pp_status :: ustring
  pp_start_date :: "timestamp option"
  pp_end_date :: "timestamp option"
  pp_key_activities :: "ustring list option"
  pp_artifacts_count :: "int option"
  pp_completion_percentage :: "int option"

record artifacts_row =
  a_id :: ustring
  a_opportunity_id :: "ustring option"
  a_title :: ustring
  a_content :: ustring
  a_artifact_type :: ustring
  a_phase :: ustring
  a_created_by :: "ustring option"
  a_created_at :: "timestamp option"
  a_tags :: "ustring list option"

record active_opportunity_row =
  ao_id :: nat
  ao_user_id :: uuid
  ao_opportunity_id :: "ustring option"
  ao_updated_at :: "timestamp option"

record db =
  users :: "uuid list"
  opportunities :: "opportunities_row list"
  phase_progress :: "phase_progress_row list"
  artifacts :: "artifacts_row list"
  active_opportunity :: "active_opportunity_row list"
  phase_progress_id_seq :: nat
  active_opportunity_id_seq :: nat

definition empty_db :: "uuid list \<Rightarrow> db" where
  "empty_db us =
     \<lparr> users = us, opportunities = [], phase_progress = [], artifacts = [],
       active_opportunity = [], phase_progress_id_seq = 1, active_opportunity_id_seq = 1 \<rparr>"

subsection \<open>Values of an INSERT\<close>

text \<open>
  What an \<^verbatim>\<open>INSERT\<close> gives for a column: nothing (the column's \<^verbatim>\<open>DEFAULT\<close>
  applies, \<^verbatim>\<open>NULL\<close> when it has none) or a value, which may be \<^verbatim>\<open>NULL\<close>. The
  \<^verbatim>\<open>SERIAL\<close> keys are always taken from their sequence.
\<close>

datatype 'a col = DEFAULT | VALUE "'a option"

fun col_value :: "'a option \<Rightarrow> 'a col \<Rightarrow> 'a option" where
  "col_value dflt DEFAULT = dflt"
| "col_value dflt (VALUE v) = v"

record opportunities_values =
  ov_id :: "ustring col"
  ov_user_id :: "uuid col"
  ov_name :: "ustring col"
  ov_client_name :: "ustring col"
  ov_description :: "ustring col"
  ov_current_phase :: "ustring col"
  ov_status :: "ustring col"
  ov_created_at :: "timestamp col"
  ov_context_summary :: "ustring col"
  ov_stakeholders :: "ustring list col"
  ov_key_insights :: "ustring list col"

record phase_progress_values =
  ppv_opportunity_id :: "ustring col"
  ppv_phase :: "ustring col"
  ppv_status :: "ustring col"
  ppv_start_date :: "timestamp col"
  ppv_end_date :: "timestamp col"
  ppv_key_activities :: "ustring list col"
  ppv_artifacts_count :: "int col"
  ppv_completion_percentage :: "int col"

record artifacts_values =
  av_id :: "ustring col"
  av_opportunity_id :: "ustring col"
  av_title :: "ustring col"
  av_content :: "ustring col"
  av_artifact_type :: "ustring col"
  av_phase :: "ustring col"
  av_created_by :: "ustring col"
  av_created_at :: "timestamp col"
  av_tags :: "ustring list col"

record active_opportunity_values =
  aov_user_id :: "uuid col"
  aov_opportunity_id :: "ustring col"
  aov_updated_at :: "timestamp col"

datatype sql_error =
    insufficient_privilege
  | not_null_violation
  | unique_violation
  | foreign_key_violation
  | numeric_value_out_of_range

subsection \<open>Row-level security policies\<close>

text \<open>
  \<open>uid\<close> is \<^verbatim>\<open>auth.uid()\<close>, \<open>None\<close> for a request without a user. A comparison with
  \<^verbatim>\<open>NULL\<close> is not true, so a policy fails for it.
\<close>

text \<open>Opportunities and the pointer: \<^verbatim>\<open>auth.uid() = user_id\<close>.\<close>

definition policy_user :: "uuid option \<Rightarrow> uuid option \<Rightarrow> bool" where
  "policy_user uid user_id = (uid \<noteq> None \<and> uid = user_id)"

text \<open>
  Artifacts and phase progress: \<^verbatim>\<open>EXISTS (SELECT 1 FROM opportunities WHERE
  opportunities.id = opportunity_id AND opportunities.user_id = auth.uid())\<close>.
\<close>

definition policy_opportunity :: "db \<Rightarrow> uuid option \<Rightarrow> ustring option \<Rightarrow> bool" where
  "policy_opportunity d uid opportunity_id =
     list_ex (\<lambda>r. Some (o_id r) = opportunity_id \<and> Some (o_user_id r) = uid) (opportunities d)"

definition select_opportunities :: "uuid option \<Rightarrow> db \<Rightarrow> opportunities_row list" where
  "select_opportunities uid d =
     filter (\<lambda>r. policy_user uid (Some (o_user_id r))) (opportunities d)"

definition select_phase_progress :: "uuid option \<Rightarrow> db \<Rightarrow> phase_progress_row list" where
  "select_phase_progress uid d =
     filter (\<lambda>r. policy_opportunity d uid (pp_opportunity_id r)) (phase_progress d)"

definition select_artifacts :: "uuid option \<Rightarrow> db \<Rightarrow> artifacts_row list" where
  "select_artifacts uid d =
     filter (\<lambda>r. policy_opportunity d uid (a_opportunity_id r)) (artifacts d)"

definition select_active_opportunity :: "uuid option \<Rightarrow> db \<Rightarrow> active_opportunity_row list" where
  "select_active_opportunity uid d =
     filter (\<lambda>r. policy_user uid (Some (ao_user_id r))) (active_opportunity d)"

subsection \<open>Statements\<close>

text \<open>
  Every statement runs for the user \<open>uid\<close> at the time \<open>now\<close> and either is refused,
  which changes no row, or gives the new database; what a refused statement has taken from
  the sequences is \<open>refused\<close> below. The checks of an \<^verbatim>\<open>INSERT\<close> come in the order of
  the database server: the \<^verbatim>\<open>WITH CHECK\<close> of the policy, the \<^verbatim>\<open>NOT NULL\<close>
  constraints, the unique indexes, the foreign keys. Unique indexes and foreign keys look
  at every row of a table, whoever owns it.
\<close>

definition int4 :: "int option \<Rightarrow> bool" where
  "int4 v = (case v of None \<Rightarrow> True | Some i \<Rightarrow> - 2147483648 \<le> i \<and> i \<le> 2147483647)"

definition insert_opportunities ::
  "uuid option \<Rightarrow> timestamp \<Rightarrow> opportunities_values \<Rightarrow> db \<Rightarrow> sql_error + db" where
  "insert_opportunities uid now v d =
     (let id = col_value None (ov_id v);
          user_id = col_value None (ov_user_id v);
          name = col_value None (ov_name v);
          client_name = col_value None (ov_client_name v);
          current_phase = col_value (Some (js ''pre_assessment'')) (ov_current_phase v);
          status = col_value (Some (js ''active'')) (ov_status v)
      in if \<not> policy_user uid user_id then Inl insufficient_privilege
         else if id = None \<or> user_id = None \<or> name = None \<or> client_name = None
                 \<or> current_phase = None \<or> status = None
         then Inl not_null_violation
         else if the id \<in> set (map o_id (opportunities d)) then Inl unique_violation
         else if the user_id \<notin> set (users d) then Inl foreign_key_violation
         else Inr (d\<lparr>opportunities := opportunities d @
                [\<lparr> o_id = the id,
                   o_user_id = the user_id,
                   o_name = the name,
                   o_client_name = the client_name,
                   o_description = col_value None (ov_description v),
                   o_current_phase = the current_phase,
                   o_status = the status,
                   o_created_at = col_value (Some now) (ov_created_at v),
                   o_context_summary = col_value (Some []) (ov_context_summary v),
                   o_stakeholders = col_value (Some []) (ov_stakeholders v),
                   o_key_insights = col_value (Some []) (ov_key_insights v) \<rparr>]\<rparr>))"

definition insert_phase_progress ::
  "uuid option \<Rightarrow> phase_progress_values \<Rightarrow> db \<Rightarrow> sql_error + db" where
  "insert_phase_progress uid v d =
     (let opportunity_id = col_value None (ppv_opportunity_id v);
          phase = col_value None (ppv_phase v);
          status = col_value (Some (js ''not_started'')) (ppv_status v);
          artifacts_count = col_value (Some 0) (ppv_artifacts_count v);
          completion_percentage = col_value (Some 0) (ppv_completion_percentage v)
      in if \<not> (int4 artifacts_count \<and> int4 completion_percentage)
         then Inl numeric_value_out_of_range
         else if \<not> policy_opportunity d uid opportunity_id then Inl insufficient_privilege
         else if phase = None \<or> status = None then Inl not_null_violation
         else if opportunity_id \<noteq> None
                 \<and> list_ex (\<lambda>r. pp_opportunity_id r = opportunity_id \<and> pp_phase r = the phase)
                      (phase_progress d)
         then Inl unique_violation
         else if opportunity_id \<noteq> None \<and> the opportunity_id \<notin> set (map o_id (opportunities d))
         then Inl foreign_key_violation
         else Inr (d\<lparr>phase_progress := phase_progress d @
                [\<lparr> pp_id = phase_progress_id_seq d,
                   pp_opportunity_id = opportunity_id,
                   pp_phase = the phase,
                   pp_status = the status,
                   pp_start_date = col_value None (ppv_start_date v),
                   pp_end_date = col_value None (ppv_end_date v),
                   pp_key_activities = col_value (Some []) (ppv_key_activities v),
                   pp_artifacts_count = artifacts_count,
                   pp_completion_percentage = completion_percentage \<rparr>],
              phase_progress_id_seq := phase_progress_id_seq d + 1\<rparr>))"

definition insert_artifacts ::
  "uuid option \<Rightarrow> timestamp \<Rightarrow> artifacts_values \<Rightarrow> db \<Rightarrow> sql_error + db" where
  "insert_artifacts uid now v d =
     (let id = col_value None (av_id v);
          opportunity_id = col_value None (av_opportunity_id v);
          title = col_value None (av_title v);
          content = col_value None (av_content v);
          artifact_type = col_value None (av_artifact_type v);
          phase = col_value None (av_phase v)
      in if \<not> policy_opportunity d uid opportunity_id then Inl insufficient_privilege
         else if id = None \<or> title = None \<or> content = None \<or> artifact_type = None \<or> phase = None
         then Inl not_null_violation
         else if the id \<in> set (map a_id (artifacts d)) then Inl unique_violation
         else if opportunity_id \<noteq> None \<and> the opportunity_id \<notin> set (map o_id (opportunities d))
         then Inl foreign_key_violation
         else Inr (d\<lparr>artifacts := artifacts d @
                [\<lparr> a_id = the id,
                   a_opportunity_id = opportunity_id,
                   a_title = the title,
                   a_content = the content,
                   a_artifact_type = the artifact_type,
                   a_phase = the phase,
                   a_created_by = col_value None (av_created_by v),
                   a_created_at = col_value (Some now) (av_created_at v),
                   a_tags = col_value (Some []) (av_tags v) \<rparr>]\<rparr>))"

definition insert_active_opportunity ::
  "uuid option \<Rightarrow> timestamp \<Rightarrow> active_opportunity_values \<Rightarrow> db \<Rightarrow> sql_error + db" where
  "insert_active_opportunity uid now v d =
     (let user_id = col_value None (aov_user_id v);
          opportunity_id = col_value None (aov_opportunity_id v)
      in if \<not> policy_user uid user_id then Inl insufficient_privilege
         else if user_id = None then Inl not_null_violation
         else if the user_id \<in> set (map ao_user_id (active_opportunity d)) then Inl unique_violation
         else if the user_id \<notin> set (users d)
                 \<or> (opportunity_id \<noteq> None
                      \<and> the opportunity_id \<notin> set (map o_id (opportunities d)))
         then Inl foreign_key_violation
         else Inr (d\<lparr>active_opportunity := active_opportunity d @
                [\<lparr> ao_id = active_opportunity_id_seq d,
                   ao_user_id = the user_id,
                   ao_opportunity_id = opportunity_id,
                   ao_updated_at = col_value (Some now) (aov_updated_at v) \<rparr>],
              active_opportunity_id_seq := active_opportunity_id_seq d + 1\<rparr>))"

text \<open>
  \<^verbatim>\<open>DELETE FROM opportunities WHERE id = ?\<close>. The rows the \<^verbatim>\<open>DELETE\<close> policy lets the
  user see are removed; for a removed row, \<^verbatim>\<open>ON DELETE CASCADE\<close> removes the artifacts
  and the phase progress that refer to it and \<^verbatim>\<open>ON DELETE SET NULL\<close> empties the
  pointers that refer to it. The referential actions are not subject to the policies.
\<close>

definition delete_opportunities :: "uuid option \<Rightarrow> ustring \<Rightarrow> db \<Rightarrow> db" where
  "delete_opportunities uid oid d =
     (if list_ex (\<lambda>r. o_id r = oid \<and> policy_user uid (Some (o_user_id r))) (opportunities d)
      then d\<lparr>opportunities :=
                filter (\<lambda>r. \<not> (o_id r = oid \<and> policy_user uid (Some (o_user_id r))))
                  (opportunities d),
              phase_progress := filter (\<lambda>r. pp_opportunity_id r \<noteq> Some oid) (phase_progress d),
              artifacts := filter (\<lambda>r. a_opportunity_id r \<noteq> Some oid) (artifacts d),
              active_opportunity :=
                map (\<lambda>r. if ao_opportunity_id r = Some oid then r\<lparr>ao_opportunity_id := None\<rparr> else r)
                  (active_opportunity d)\<rparr>
      else d)"

text \<open>
  The stored function \<^verbatim>\<open>increment_artifacts_count(opp_id, phase_name)\<close>: one
  \<^verbatim>\<open>UPDATE phase_progress SET artifacts_count = artifacts_count + 1\<close> on the rows of the
  pair that the policy lets the caller update. \<^verbatim>\<open>NULL + 1\<close> is \<^verbatim>\<open>NULL\<close>, and the
  sum of an \<^verbatim>\<open>INTEGER\<close> must stay in range.
\<close>

definition increment_artifacts_count ::
  "uuid option \<Rightarrow> ustring \<Rightarrow> ustring \<Rightarrow> db \<Rightarrow> sql_error + db" where
  "increment_artifacts_count uid opp_id phase_name d =
     (let hit = (\<lambda>r. pp_opportunity_id r = Some opp_id \<and> pp_phase r = phase_name
                     \<and> policy_opportunity d uid (pp_opportunity_id r))
      in if list_ex (\<lambda>r. hit r \<and> pp_artifacts_count r = Some 2147483647) (phase_progress d)
         then Inl numeric_value_out_of_range
         else Inr (d\<lparr>phase_progress :=
                map (\<lambda>r. if hit r
                         then r\<lparr>pp_artifacts_count := map_option (\<lambda>n. n + 1) (pp_artifacts_count r)\<rparr>
                         else r)
                  (phase_progress d)\<rparr>))"

text \<open>
  Modelled from the spec: the statement of the store that sets the current phase (section
  4.2), whose code is missing; what it does to the table and under the policy is fixed by
  the schema. \<^verbatim>\<open>UPDATE opportunities SET current_phase = ? WHERE id = ?\<close>:
\<close>

definition update_current_phase :: "uuid option \<Rightarrow> ustring \<Rightarrow> ustring \<Rightarrow> db \<Rightarrow> db" where
  "update_current_phase uid oid phase d =
     d\<lparr>opportunities :=
         map (\<lambda>r. if o_id r = oid \<and> policy_user uid (Some (o_user_id r))
                  then r\<lparr>o_current_phase := phase\<rparr> else r)
           (opportunities d)\<rparr>"

text \<open>
  Modelled from the spec: the statement of the store that moves a phase from one status to
  another (section 4.2), whose code is missing.
  \<^verbatim>\<open>UPDATE phase_progress SET status = ?, start_date = COALESCE(?, start_date)
  WHERE opportunity_id = ? AND phase = ? AND status = ?\<close>:
\<close>

definition update_phase_status ::
  "uuid option \<Rightarrow> ustring \<Rightarrow> ustring \<Rightarrow> ustring \<Rightarrow> ustring \<Rightarrow> timestamp option \<Rightarrow> db \<Rightarrow> db" where
  "update_phase_status uid opp_id phase old_status new_status start d =
     d\<lparr>phase_progress :=
         map (\<lambda>r. if pp_opportunity_id r = Some opp_id \<and> pp_phase r = phase
                     \<and> pp_status r = old_status
                     \<and> policy_opportunity d uid (pp_opportunity_id r)
                  then r\<lparr>pp_status := new_status,
                         pp_start_date := (case start of None \<Rightarrow> pp_start_date r | Some t \<Rightarrow> Some t)\<rparr>
                  else r)
           (phase_progress d)\<rparr>"

text \<open>
  Modelled from the spec: the upsert of the pointer (section 4.4, "upsert semantics, not
  append"), whose code is missing, on the unique column of the table.
  \<^verbatim>\<open>INSERT INTO active_opportunity (user_id, opportunity_id, updated_at) VALUES (...)
  ON CONFLICT (user_id) DO UPDATE SET opportunity_id = EXCLUDED.opportunity_id,
  updated_at = EXCLUDED.updated_at\<close>: the row of the user is replaced where there is one.
  The row proposed for insertion has taken its key from the sequence by then, so the
  sequence moves on also where the row is only updated.
\<close>

definition upsert_active_opportunity ::
  "uuid option \<Rightarrow> timestamp \<Rightarrow> active_opportunity_values \<Rightarrow> db \<Rightarrow> sql_error + db" where
  "upsert_active_opportunity uid now v d =
     (let user_id = col_value None (aov_user_id v);
          opportunity_id = col_value None (aov_opportunity_id v);
          updated_at = col_value (Some now) (aov_updated_at v)
      in if \<not> policy_user uid user_id then Inl insufficient_privilege
         else if user_id = None then Inl not_null_violation
         else if the user_id \<notin> set (users d)
                 \<or> (opportunity_id \<noteq> None
                      \<and> the opportunity_id \<notin> set (map o_id (opportunities d)))
         then Inl foreign_key_violation
         else if the user_id \<in> set (map ao_user_id (active_opportunity d))
         then Inr (d\<lparr>active_opportunity :=
                map (\<lambda>r. if ao_user_id r = the user_id
                         then r\<lparr>ao_opportunity_id := opportunity_id, ao_updated_at := updated_at\<rparr>
                         else r)
                  (active_opportunity d),
              active_opportunity_id_seq := active_opportunity_id_seq d + 1\<rparr>)
         else Inr (d\<lparr>active_opportunity := active_opportunity d @
                [\<lparr> ao_id = active_opportunity_id_seq d,
                   ao_user_id = the user_id,
                   ao_opportunity_id = opportunity_id,
                   ao_updated_at = updated_at \<rparr>],
              active_opportunity_id_seq := active_opportunity_id_seq d + 1\<rparr>))"

datatype statement =
    INSERT_opportunities opportunities_values
  | INSERT_phase_progress phase_progress_values
  | INSERT_artifacts artifacts_values
  | INSERT_active_opportunity active_opportunity_values
  | UPSERT_active_opportunity active_opportunity_values
  | DELETE_opportunities ustring
  | CALL_increment_artifacts_count ustring ustring
  | UPDATE_current_phase ustring ustring
  | UPDATE_phase_status ustring ustring ustring ustring "timestamp option"

fun exec :: "uuid option \<Rightarrow> timestamp \<Rightarrow> statement \<Rightarrow> db \<Rightarrow> sql_error + db" where
  "exec uid now (INSERT_opportunities v) d = insert_opportunities uid now v d"
| "exec uid now (INSERT_phase_progress v) d = insert_phase_progress uid v d"
| "exec uid now (INSERT_artifacts v) d = insert_artifacts uid now v d"
| "exec uid now (INSERT_active_opportunity v) d = insert_active_opportunity uid now v d"
| "exec uid now (UPSERT_active_opportunity v) d = upsert_active_opportunity uid now v d"
| "exec uid now (DELETE_opportunities oid) d = Inr (delete_opportunities uid oid d)"
| "exec uid now (CALL_increment_artifacts_count opp_id phase_name) d =
     increment_artifacts_count uid opp_id phase_name d"
| "exec uid now (UPDATE_current_phase oid phase) d = Inr (update_current_phase uid oid phase d)"
| "exec uid now (UPDATE_phase_status opp_id phase old_status new_status start) d =
     Inr (update_phase_status uid opp_id phase old_status new_status start d)"

text \<open>
  A sequence is no part of a transaction: a value taken from it is never given back. An
  \<^verbatim>\<open>INSERT\<close> takes the \<^verbatim>\<open>SERIAL\<close> key when it forms the row, before the policy and
  the constraints are looked at, so a refused \<^verbatim>\<open>INSERT\<close> into \<^verbatim>\<open>phase_progress\<close> or
  \<^verbatim>\<open>active_opportunity\<close> has used a value all the same; only a number that does not
  fit its \<^verbatim>\<open>INTEGER\<close> column is refused before the row is formed. \<open>refused s e d\<close> is
  the database after the statement \<open>s\<close> was refused with the error \<open>e\<close>.
\<close>

fun refused :: "statement \<Rightarrow> sql_error \<Rightarrow> db \<Rightarrow> db" where
  "refused (INSERT_phase_progress v) e d =
     (if e = numeric_value_out_of_range then d
      else d\<lparr>phase_progress_id_seq := phase_progress_id_seq d + 1\<rparr>)"
| "refused (INSERT_active_opportunity v) e d =
     d\<lparr>active_opportunity_id_seq := active_opportunity_id_seq d + 1\<rparr>"
| "refused (UPSERT_active_opportunity v) e d =
     d\<lparr>active_opportunity_id_seq := active_opportunity_id_seq d + 1\<rparr>"
| "refused s e d = d"

text \<open>A transaction: the statements in order, all or nothing.\<close>

fun transaction :: "uuid option \<Rightarrow> timestamp \<Rightarrow> statement list \<Rightarrow> db \<Rightarrow> sql_error + db" where
  "transaction uid now [] d = Inr d"
| "transaction uid now (s # ss) d =
     (case exec uid now s d of
        Inl e \<Rightarrow> Inl e
      | Inr d' \<Rightarrow> transaction uid now ss d')"

text \<open>
  The database after a transaction that was rolled back: the rows it began with, in \<open>d0\<close>,
  and the sequences as its statements left them, the refused one included.
\<close>

definition sequences_of :: "db \<Rightarrow> db \<Rightarrow> db" where
  "sequences_of d d0 =
     d0\<lparr>phase_progress_id_seq := phase_progress_id_seq d,
        active_opportunity_id_seq := active_opportunity_id_seq d\<rparr>"

fun rolled_back :: "uuid option \<Rightarrow> timestamp \<Rightarrow> statement list \<Rightarrow> db \<Rightarrow> db \<Rightarrow> db" where
  "rolled_back uid now [] d0 d = sequences_of d d0"
| "rolled_back uid now (s # ss) d0 d =
     (case exec uid now s d of
        Inl e \<Rightarrow> sequences_of (refused s e d) d0
      | Inr d' \<Rightarrow> rolled_back uid now ss d0 d')"

text \<open>
  Independent transactions one after the other: one that fails is rolled back and the
  next one runs.
\<close>

fun run_all :: "uuid option \<Rightarrow> timestamp \<Rightarrow> statement list list \<Rightarrow> db \<Rightarrow> db" where
  "run_all uid now [] d = d"
| "run_all uid now (t # ts) d =
     (case transaction uid now t d of
        Inl e \<Rightarrow> run_all uid now ts (rolled_back uid now t d d)
      | Inr d' \<Rightarrow> run_all uid now ts d')"

subsection \<open>What the constraints maintain\<close>

text \<open>
  The primary keys and the two \<^verbatim>\<open>UNIQUE\<close> constraints. Two \<^verbatim>\<open>NULL\<close>s are not
  equal, so only phase-progress rows with an opportunity are compared.
\<close>

definition unique_keys :: "db \<Rightarrow> bool" where
  "unique_keys d =
     (distinct (map o_id (opportunities d))
      \<and> distinct (map a_id (artifacts d))
      \<and> distinct (map ao_user_id (active_opportunity d))
      \<and> distinct (map (\<lambda>r. (pp_opportunity_id r, pp_phase r))
                    (filter (\<lambda>r. pp_opportunity_id r \<noteq> None) (phase_progress d))))"

text \<open>The foreign keys: every reference that is not \<^verbatim>\<open>NULL\<close> has its row.\<close>

definition foreign_keys :: "db \<Rightarrow> bool" where
  "foreign_keys d =
     (list_all (\<lambda>r. o_user_id r \<in> set (users d)) (opportunities d)
      \<and> list_all (\<lambda>r. case pp_opportunity_id r of
                         None \<Rightarrow> True | Some x \<Rightarrow> x \<in> set (map o_id (opportunities d)))
            (phase_progress d)
      \<and> list_all (\<lambda>r. case a_opportunity_id r of
                         None \<Rightarrow> True | Some x \<Rightarrow> x \<in> set (map o_id (opportunities d)))
            (artifacts d)
      \<and> list_all (\<lambda>r. ao_user_id r \<in> set (users d)
                       \<and> (case ao_opportunity_id r of
                             None \<Rightarrow> True | Some x \<Rightarrow> x \<in> set (map o_id (opportunities d))))
            (active_opportunity d))"

text \<open>The number of artifacts filed under a phase of an opportunity.\<close>

definition artifacts_filed :: "db \<Rightarrow> ustring \<Rightarrow> ustring \<Rightarrow> int" where
  "artifacts_filed d oid phase =
     int (length (filter (\<lambda>a. a_opportunity_id a = Some oid \<and> a_phase a = phase) (artifacts d)))"

text \<open>Every phase-progress row of an opportunity counts the artifacts filed under it.\<close>

definition counts_exact :: "db \<Rightarrow> bool" where
  "counts_exact d =
     list_all (\<lambda>r. case pp_opportunity_id r of
                     None \<Rightarrow> True
                   | Some oid \<Rightarrow> pp_artifacts_count r = Some (artifacts_filed d oid (pp_phase r)))
       (phase_progress d)"

text \<open>
  A transaction that files an artifact: the \<^verbatim>\<open>INSERT\<close> of the artifact, then the call
  of \<open>increment_artifacts_count\<close> for the opportunity and the phase of that artifact.
\<close>

fun files_artifact :: "statement list \<Rightarrow> bool" where
  "files_artifact [INSERT_artifacts v, CALL_increment_artifacts_count opp_id phase_name] =
     (col_value None (av_opportunity_id v) = Some opp_id
      \<and> col_value None (av_phase v) = Some phase_name)"
| "files_artifact _ = False"

subsection \<open>A database to try the statements on\<close>

text \<open>
  User 1 owns the opportunity \<^verbatim>\<open>o1\<close> in its first phase, with one artifact filed there
  and the pointer on it; user 2 owns \<^verbatim>\<open>o2\<close> in the same way.
\<close>

definition scenario_phase ::
  "nat \<Rightarrow> ustring \<Rightarrow> ustring \<Rightarrow> ustring \<Rightarrow> int \<Rightarrow> phase_progress_row" where
  "scenario_phase n oid phase status k =
     \<lparr> pp_id = n, pp_opportunity_id = Some oid, pp_phase = phase, pp_status = status,
       pp_start_date = None, pp_end_date = None, pp_key_activities = Some [],
       pp_artifacts_count = Some k, pp_completion_percentage = Some 0 \<rparr>"

definition scenario_db :: db where
  "scenario_db =
     \<lparr> users = [1, 2],
       opportunities =
         [\<lparr> o_id = js ''o1'', o_user_id = 1, o_name = js ''Acme Transformation'',
            o_client_name = js ''Acme Corp'',
            o_description = Some (js ''Digital transformation''),
            o_current_phase = js ''pre_assessment'', o_status = js ''active'',
            o_created_at = Some 100, o_context_summary = Some [], o_stakeholders = Some [],
            o_key_insights = Some [] \<rparr>,
          \<lparr> o_id = js ''o2'', o_user_id = 2, o_name = js ''Other'',
            o_client_name = js ''Other Corp'', o_description = None,
            o_current_phase = js ''pre_assessment'', o_status = js ''active'',
            o_created_at = Some 100, o_context_summary = Some [], o_stakeholders = Some [],
            o_key_insights = Some [] \<rparr>],
       phase_progress =
         [scenario_phase 1 (js ''o1'') (js ''pre_assessment'') (js ''in_progress'') 1,
          scenario_phase 2 (js ''o1'') (js ''discovery'') (js ''not_started'') 0,
          scenario_phase 3 (js ''o1'') (js ''solution_design'') (js ''not_started'') 0,
          scenario_phase 4 (js ''o1'') (js ''implementation'') (js ''not_started'') 0,
          scenario_phase 5 (js ''o2'') (js ''pre_assessment'') (js ''in_progress'') 1],
       artifacts =
         [\<lparr> a_id = js ''a1'', a_opportunity_id = Some (js ''o1''),
            a_title = js ''Manual approval bottleneck'', a_content = js ''...'',
            a_artifact_type = js ''pain_point'', a_phase = js ''pre_assessment'',
            a_created_by = None, a_created_at = Some 101, a_tags = Some [] \<rparr>,
          \<lparr> a_id = js ''a2'', a_opportunity_id = Some (js ''o2''),
            a_title = js ''Note'', a_content = js ''...'',
            a_artifact_type = js ''meeting_note'', a_phase = js ''pre_assessment'',
            a_created_by = None, a_created_at = Some 101, a_tags = Some [] \<rparr>],
       active_opportunity =
         [\<lparr> ao_id = 1, ao_user_id = 1, ao_opportunity_id = Some (js ''o1''),
            ao_updated_at = Some 102 \<rparr>,
          \<lparr> ao_id = 2, ao_user_id = 2, ao_opportunity_id = Some (js ''o2''),
            ao_updated_at = Some 102 \<rparr>],
       phase_progress_id_seq = 6,
       active_opportunity_id_seq = 3 \<rparr>"

text \<open>An artifact to file under the first phase of \<^verbatim>\<open>o1\<close>.\<close>

definition scenario_artifact :: artifacts_values where
  "scenario_artifact =
     \<lparr> av_id = VALUE (Some (js ''a3'')), av_opportunity_id = VALUE (Some (js ''o1'')),
       av_title = VALUE (Some (js ''Second finding'')), av_content = VALUE (Some (js ''...'')),
       av_artifact_type = VALUE (Some (js ''risk'')), av_phase = VALUE (Some (js ''pre_assessment'')),
       av_created_by = DEFAULT, av_created_at = DEFAULT, av_tags = DEFAULT \<rparr>"

text \<open>An opportunity that user 1 tries to store under the id of \<^verbatim>\<open>o2\<close>.\<close>

definition scenario_opportunity :: opportunities_values where
  "scenario_opportunity =
     \<lparr> ov_id = VALUE (Some (js ''o2'')), ov_user_id = VALUE (Some 1),
       ov_name = VALUE (Some (js ''Second engagement'')),
       ov_client_name = VALUE (Some (js ''Acme Corp'')), ov_description = DEFAULT,
       ov_current_phase = DEFAULT, ov_status = DEFAULT, ov_created_at = DEFAULT,
       ov_context_summary = DEFAULT, ov_stakeholders = DEFAULT, ov_key_insights = DEFAULT \<rparr>"

section \<open>What an owner can read\<close>

text \<open>
  Everything the policies let a user read: the observation used to compare two databases
  from the point of view of one owner.
\<close>

definition view ::
  "uuid option \<Rightarrow> db \<Rightarrow>
     opportunities_row list \<times> phase_progress_row list \<times> artifacts_row list
       \<times> active_opportunity_row list" where
  "view uid d =
     (select_opportunities uid d, select_phase_progress uid d, select_artifacts uid d,
      select_active_opportunity uid d)"

text \<open>The statements that add a row.\<close>

fun inserts :: "statement \<Rightarrow> bool" where
  "inserts (INSERT_opportunities v) = True"
| "inserts (INSERT_phase_progress v) = True"
| "inserts (INSERT_artifacts v) = True"
| "inserts (INSERT_active_opportunity v) = True"
| "inserts (UPSERT_active_opportunity v) = True"
| "inserts s = False"

text \<open>Every pointer of the user refers to nothing or to an opportunity of the same user.\<close>

definition pointer_owned :: "uuid \<Rightarrow> db \<Rightarrow> bool" where
  "pointer_owned u d =
     list_all (\<lambda>r. ao_user_id r = u \<longrightarrow>
                 ao_opportunity_id r = None \<or> policy_opportunity d (Some u) (ao_opportunity_id r))
       (active_opportunity d)"

section \<open>The objects of the interface\<close>

text \<open>
  \<^verbatim>\<open>PhaseProgress\<close>, \<^verbatim>\<open>Opportunity\<close> and \<^verbatim>\<open>Artifact\<close> of the hooks module. A
  \<^verbatim>\<open>Record<string, PhaseProgress>\<close> is a map; a date is the timestamp it renders.
\<close>

record PhaseProgress =
  pg_phase :: ustring
  pg_status :: ustring
  pg_startDate :: "timestamp option"
  pg_endDate :: "timestamp option"
  pg_keyActivities :: "ustring list"
  pg_artifactsCount :: int
  pg_completionPercentage :: int

record Opportunity =
  opp_id :: ustring
  opp_name :: ustring
  opp_clientName :: ustring
  opp_description :: ustring
  opp_currentPhase :: ustring
  opp_status :: ustring
  opp_createdAt :: "timestamp option"
  opp_phaseProgress :: "ustring \<rightharpoonup> PhaseProgress"
  opp_artifactsCount :: nat
  opp_stakeholders :: "ustring list"
  opp_contextSummary :: ustring
  opp_keyInsights :: "ustring list"

record Artifact =
  art_id :: ustring
  art_title :: ustring
  art_content :: ustring
  art_artifactType :: ustring
  art_phase :: ustring
  art_createdBy :: "ustring option"
  art_createdAt :: "timestamp option"
  art_tags :: "ustring list"

section \<open>The engagement service\<close>

text \<open>
  The service and its store are not among the sources of the repository that are
  available; the operations below follow the specification and run on the schema above.
\<close>

datatype error = ValidationError | NotFound | InvalidPhaseError | Conflict | Unavailable

text \<open>
  Modelled from the spec: the translation of the store's failures into the taxonomy of
  section 7, whose code is missing. The specification fixes that a uniqueness violation
  is a \<open>Conflict\<close> and that an entity that is absent or not owned by the caller is
  \<open>NotFound\<close>; the other two cases are a choice of this model.
\<close>

fun store_error :: "sql_error \<Rightarrow> error" where
  "store_error unique_violation = Conflict"
| "store_error insufficient_privilege = NotFound"
| "store_error foreign_key_violation = NotFound"
| "store_error not_null_violation = ValidationError"
| "store_error numeric_value_out_of_range = Conflict"

text \<open>
  Modelled from the spec: how a stored row becomes an object of the interface, whose code
  (the store) is missing. A \<^verbatim>\<open>NULL\<close> becomes the empty value of the field's type;
  \<open>artifactsCount\<close> of an opportunity is the number of its artifacts (section 3: derived,
  recomputed).
\<close>

definition to_PhaseProgress :: "phase_progress_row \<Rightarrow> PhaseProgress" where
  "to_PhaseProgress r =
     \<lparr> pg_phase = pp_phase r,
       pg_status = pp_status r,
       pg_startDate = pp_start_date r,
       pg_endDate = pp_end_date r,
       pg_keyActivities = (case pp_key_activities r of None \<Rightarrow> [] | Some xs \<Rightarrow> xs),
       pg_artifactsCount = (case pp_artifacts_count r of None \<Rightarrow> 0 | Some n \<Rightarrow> n),
       pg_completionPercentage = (case pp_completion_percentage r of None \<Rightarrow> 0 | Some n \<Rightarrow> n) \<rparr>"

definition to_Artifact :: "artifacts_row \<Rightarrow> Artifact" where
  "to_Artifact r =
     \<lparr> art_id = a_id r,
       art_title = a_title r,
       art_content = a_content r,
       art_artifactType = a_artifact_type r,
       art_phase = a_phase r,
       art_createdBy = a_created_by r,
       art_createdAt = a_created_at r,
       art_tags = (case a_tags r of None \<Rightarrow> [] | Some xs \<Rightarrow> xs) \<rparr>"

definition to_Opportunity ::
  "opportunities_row \<Rightarrow> phase_progress_row list \<Rightarrow> artifacts_row list \<Rightarrow> Opportunity" where
  "to_Opportunity r pps arts =
     \<lparr> opp_id = o_id r,
       opp_name = o_name r,
       opp_clientName = o_client_name r,
       opp_description = (case o_description r of None \<Rightarrow> [] | Some x \<Rightarrow> x),
       opp_currentPhase = o_current_phase r,
       opp_status = o_status r,
       opp_createdAt = o_created_at r,
       opp_phaseProgress = map_of (map (\<lambda>p. (pp_phase p, to_PhaseProgress p)) pps),
       opp_artifactsCount = length arts,
       opp_stakeholders = (case o_stakeholders r of None \<Rightarrow> [] | Some xs \<Rightarrow> xs),
       opp_contextSummary = (case o_context_summary r of None \<Rightarrow> [] | Some x \<Rightarrow> x),
       opp_keyInsights = (case o_key_insights r of None \<Rightarrow> [] | Some xs \<Rightarrow> xs) \<rparr>"

text \<open>
  Modelled from the spec: fetching an opportunity by id for an owner (section 4.3,
  \<open>get\<close>), whose code is missing: the opportunity, its phase progress and its artifacts
  as the owner may read them.
\<close>

definition artifacts_of :: "uuid option \<Rightarrow> ustring \<Rightarrow> db \<Rightarrow> artifacts_row list" where
  "artifacts_of uid oid d = filter (\<lambda>r. a_opportunity_id r = Some oid) (select_artifacts uid d)"

definition phase_progress_of :: "uuid option \<Rightarrow> ustring \<Rightarrow> db \<Rightarrow> phase_progress_row list" where
  "phase_progress_of uid oid d =
     filter (\<lambda>r. pp_opportunity_id r = Some oid) (select_phase_progress uid d)"

definition getOpportunity :: "uuid option \<Rightarrow> ustring \<Rightarrow> db \<Rightarrow> error + Opportunity" where
  "getOpportunity uid oid d =
     (case filter (\<lambda>r. o_id r = oid) (select_opportunities uid d) of
        [] \<Rightarrow> Inl NotFound
      | r # _ \<Rightarrow> Inr (to_Opportunity r (phase_progress_of uid oid d) (artifacts_of uid oid d)))"

text \<open>
  Modelled from the spec: fetching an artifact by id (section 4.3, \<open>get\<close>; section 8,
  scenario E), whose code is missing.
\<close>

definition getArtifact :: "uuid option \<Rightarrow> ustring \<Rightarrow> db \<Rightarrow> error + Artifact" where
  "getArtifact uid aid d =
     (case filter (\<lambda>r. a_id r = aid) (select_artifacts uid d) of
        [] \<Rightarrow> Inl NotFound
      | r # _ \<Rightarrow> Inr (to_Artifact r))"

text \<open>
  Modelled from the spec: \<open>createOpportunity\<close> (sections 4.1 and 4.6), whose code is
  missing. The three texts must not be empty or whitespace-only, tested as the form does
  with \<open>not_trim\<close>; the opportunity and one phase-progress row per phase of
  \<open>PHASE_ORDER\<close> are stored in one transaction, the first phase \<open>in_progress\<close>, and the
  stored opportunity is returned. \<open>new_id\<close> comes from the identifier generator.
\<close>

definition initial_phase_progress :: "ustring \<Rightarrow> ustring \<Rightarrow> phase_progress_values" where
  "initial_phase_progress new_id p =
     \<lparr> ppv_opportunity_id = VALUE (Some new_id), ppv_phase = VALUE (Some p),
       ppv_status = (if p = hd PHASE_ORDER then VALUE (Some (js ''in_progress'')) else DEFAULT),
       ppv_start_date = DEFAULT, ppv_end_date = DEFAULT, ppv_key_activities = DEFAULT,
       ppv_artifacts_count = DEFAULT, ppv_completion_percentage = DEFAULT \<rparr>"

definition create_statements ::
  "uuid option \<Rightarrow> ustring \<Rightarrow> ustring \<Rightarrow> ustring \<Rightarrow> ustring \<Rightarrow> ustring list \<Rightarrow> statement list" where
  "create_statements uid new_id name clientName description stakeholders =
     INSERT_opportunities
       \<lparr> ov_id = VALUE (Some new_id), ov_user_id = VALUE uid, ov_name = VALUE (Some name),
         ov_client_name = VALUE (Some clientName), ov_description = VALUE (Some description),
         ov_current_phase = DEFAULT, ov_status = DEFAULT, ov_created_at = DEFAULT,
         ov_context_summary = DEFAULT, ov_stakeholders = VALUE (Some stakeholders),
         ov_key_insights = DEFAULT \<rparr>
     # map (\<lambda>p. INSERT_phase_progress (initial_phase_progress new_id p)) PHASE_ORDER"

definition createOpportunity ::
  "uuid option \<Rightarrow> timestamp \<Rightarrow> ustring \<Rightarrow> ustring \<Rightarrow> ustring \<Rightarrow> ustring \<Rightarrow> ustring list \<Rightarrow> db
     \<Rightarrow> error + db \<times> Opportunity" where
  "createOpportunity uid now new_id name clientName description stakeholders d =
     (if not_trim name \<or> not_trim clientName \<or> not_trim description then Inl ValidationError
      else case transaction uid now
                  (create_statements uid new_id name clientName description stakeholders) d of
             Inl e \<Rightarrow> Inl (store_error e)
           | Inr d' \<Rightarrow>
               (case getOpportunity uid new_id d' of
                  Inl e \<Rightarrow> Inl e
                | Inr opp \<Rightarrow> Inr (d', opp)))"

text \<open>
  Modelled from the spec: \<open>addArtifact\<close> (sections 4.1 and 4.6), whose code is missing.
  The type must be one of \<open>ARTIFACT_TYPES\<close> and title and content must not be empty; the
  artifact is stored and \<open>increment_artifacts_count\<close> is called for its phase, in one
  transaction. The tags are a set (section 3: duplicates collapsed, order not
  significant): what is stored in the array column is each label once, in the order of
  the labels, so that equal sets are stored as equal arrays.
\<close>

definition tag_set :: "ustring list \<Rightarrow> ustring list" where
  "tag_set tags = sort (remdups tags)"

definition addArtifact ::
  "uuid option \<Rightarrow> timestamp \<Rightarrow> ustring \<Rightarrow> ustring \<Rightarrow> ustring \<Rightarrow> ustring \<Rightarrow> ustring \<Rightarrow> ustring
     \<Rightarrow> ustring list \<Rightarrow> db \<Rightarrow> error + db" where
  "addArtifact uid now new_id oid artifactType title content phase tags d =
     (if artifactType \<notin> set ARTIFACT_TYPES \<or> title = [] \<or> content = [] then Inl ValidationError
      else case transaction uid now
                  [INSERT_artifacts
                     \<lparr> av_id = VALUE (Some new_id), av_opportunity_id = VALUE (Some oid),
                       av_title = VALUE (Some title), av_content = VALUE (Some content),
                       av_artifact_type = VALUE (Some artifactType), av_phase = VALUE (Some phase),
                       av_created_by = DEFAULT, av_created_at = DEFAULT,
                       av_tags = VALUE (Some (tag_set tags)) \<rparr>,
                   CALL_increment_artifacts_count oid phase] d of
             Inl e \<Rightarrow> Inl (store_error e)
           | Inr d' \<Rightarrow> Inr d')"

text \<open>
  Modelled from the spec: \<open>changePhase\<close> (sections 4.2 and 4.6), whose code is missing.
  A target outside the phase set is an \<open>InvalidPhaseError\<close>; any phase of the set may be
  entered. The phase left becomes \<open>completed\<close> if it was \<open>in_progress\<close>; the phase
  entered becomes \<open>in_progress\<close>, with its start date, if it was \<open>not_started\<close>; then
  the current phase is set.
\<close>

definition changePhase ::
  "uuid option \<Rightarrow> timestamp \<Rightarrow> ustring \<Rightarrow> ustring \<Rightarrow> db \<Rightarrow> error + db" where
  "changePhase uid now oid targetPhase d =
     (if targetPhase \<notin> set PHASE_ORDER then Inl InvalidPhaseError
      else case filter (\<lambda>r. o_id r = oid) (select_opportunities uid d) of
             [] \<Rightarrow> Inl NotFound
           | r # _ \<Rightarrow>
               (case transaction uid now
                       [UPDATE_phase_status oid (o_current_phase r)
                          (js ''in_progress'') (js ''completed'') None,
                        UPDATE_phase_status oid targetPhase
                          (js ''not_started'') (js ''in_progress'') (Some now),
                        UPDATE_current_phase oid targetPhase] d of
                  Inl e \<Rightarrow> Inl (store_error e)
                | Inr d' \<Rightarrow> Inr d'))"

text \<open>
  Modelled from the spec: \<open>activate\<close> of the active-opportunity tracker (section 4.4),
  whose code is missing: \<open>NotFound\<close> unless the owner can read the opportunity; on success
  the owner's pointer is written by an upsert.
\<close>

definition activate :: "uuid option \<Rightarrow> timestamp \<Rightarrow> ustring \<Rightarrow> db \<Rightarrow> error + db" where
  "activate uid now oid d =
     (if filter (\<lambda>r. o_id r = oid) (select_opportunities uid d) = [] then Inl NotFound
      else case upsert_active_opportunity uid now
                  \<lparr> aov_user_id = VALUE uid, aov_opportunity_id = VALUE (Some oid),
                    aov_updated_at = DEFAULT \<rparr> d of
             Inl e \<Rightarrow> Inl (store_error e)
           | Inr d' \<Rightarrow> Inr d')"

text \<open>
  Modelled from the spec: \<open>getActive\<close> and \<open>getActiveContext\<close> (sections 4.4 and 4.6),
  whose code is missing. \<open>None\<close> is the result "no active opportunity": the owner has
  no pointer, the pointer is empty, or it refers to nothing the owner can read. The
  projected context of section 4.5 is left out of the result.
\<close>

definition getActive :: "uuid option \<Rightarrow> db \<Rightarrow> ustring option" where
  "getActive uid d =
     (case select_active_opportunity uid d of
        [] \<Rightarrow> None
      | r # _ \<Rightarrow> ao_opportunity_id r)"

definition getActiveContext :: "uuid option \<Rightarrow> db \<Rightarrow> (Opportunity \<times> Artifact list) option" where
  "getActiveContext uid d =
     (case getActive uid d of
        None \<Rightarrow> None
      | Some oid \<Rightarrow>
          (case getOpportunity uid oid d of
             Inl e \<Rightarrow> None
           | Inr opp \<Rightarrow> Some (opp, map to_Artifact (artifacts_of uid oid d))))"

text \<open>
  Modelled from the spec: \<open>deleteOpportunity\<close> (section 4.6), whose code is missing:
  \<open>NotFound\<close> unless the owner can read the opportunity, else the \<^verbatim>\<open>DELETE\<close>.
\<close>

definition deleteOpportunity :: "uuid option \<Rightarrow> ustring \<Rightarrow> db \<Rightarrow> error + db" where
  "deleteOpportunity uid oid d =
     (if filter (\<lambda>r. o_id r = oid) (select_opportunities uid d) = [] then Inl NotFound
      else Inr (delete_opportunities uid oid d))"

text \<open>
  Modelled from the spec: the service as the only entry point (section 4.6), whose code is
  missing: a call, what it returns, and the database it leaves. A call that fails leaves
  every row as it was (section 4.6: either the whole operation is visible or none of it
  is); where it failed in the store, its transaction is rolled back.
\<close>

datatype call =
    CreateOpportunity ustring ustring ustring ustring "ustring list"
  | AddArtifact ustring ustring ustring ustring ustring ustring "ustring list"
  | ChangePhase ustring ustring
  | ActivateOpportunity ustring
  | DeleteOpportunity ustring

fun perform :: "uuid option \<Rightarrow> timestamp \<Rightarrow> call \<Rightarrow> db \<Rightarrow> error + db" where
  "perform uid now (CreateOpportunity new_id name clientName description stakeholders) d =
     map_sum id fst
       (createOpportunity uid now new_id name clientName description stakeholders d)"
| "perform uid now (AddArtifact new_id oid artifactType title content phase tags) d =
     addArtifact uid now new_id oid artifactType title content phase tags d"
| "perform uid now (ChangePhase oid targetPhase) d = changePhase uid now oid targetPhase d"
| "perform uid now (ActivateOpportunity oid) d = activate uid now oid d"
| "perform uid now (DeleteOpportunity oid) d = deleteOpportunity uid oid d"

text \<open>
  The database after a call that failed. Only the creation of an opportunity and the
  activation send statements that take from a sequence; a call that fails before it
  reaches the store sends none.
\<close>

fun failed :: "uuid option \<Rightarrow> timestamp \<Rightarrow> call \<Rightarrow> db \<Rightarrow> db" where
  "failed uid now (CreateOpportunity new_id name clientName description stakeholders) d =
     (if not_trim name \<or> not_trim clientName \<or> not_trim description then d
      else rolled_back uid now
             (create_statements uid new_id name clientName description stakeholders) d d)"
| "failed uid now (ActivateOpportunity oid) d =
     (if filter (\<lambda>r. o_id r = oid) (select_opportunities uid d) = [] then d
      else rolled_back uid now
             [UPSERT_active_opportunity
                \<lparr> aov_user_id = VALUE uid, aov_opportunity_id = VALUE (Some oid),
                  aov_updated_at = DEFAULT \<rparr>] d d)"
| "failed uid now c d = d"

definition serve :: "uuid option \<Rightarrow> timestamp \<Rightarrow> call \<Rightarrow> db \<Rightarrow> db" where
  "serve uid now c d =
     (case perform uid now c d of
        Inl e \<Rightarrow> failed uid now c d
      | Inr d' \<Rightarrow> d')"

text \<open>Calls one after the other, each by some user at some time.\<close>

fun serve_all :: "(uuid option \<times> timestamp \<times> call) list \<Rightarrow> db \<Rightarrow> db" where
  "serve_all [] d = d"
| "serve_all ((uid, now, c) # cs) d = serve_all cs (serve uid now c d)"

text \<open>
  Every opportunity has exactly one phase-progress row for each phase of \<open>PHASE_ORDER\<close>,
  and every phase-progress row is for one of these phases.
\<close>

definition phases_complete :: "db \<Rightarrow> bool" where
  "phases_complete d =
     (list_all (\<lambda>r. list_all (\<lambda>p. length (filter (\<lambda>x. pp_opportunity_id x = Some (o_id r)
                                                  \<and> pp_phase x = p) (phase_progress d)) = 1)
                          PHASE_ORDER)
        (opportunities d)
      \<and> list_all (\<lambda>x. pp_phase x \<in> set PHASE_ORDER) (phase_progress d))"

section \<open>Properties of the front end\<close>

lemma js_eq_iff [simp]: "js a = js b \<longleftrightarrow> a = b"
  by (simp add: js_def inj_map_eq_map inj_def)

lemma dropWhile_all: "(\<forall>c\<in>set (dropWhile P xs). P c) \<longleftrightarrow> (\<forall>c\<in>set xs. P c)"
  by (induction xs) simp_all

lemma not_trim_iff: "not_trim s \<longleftrightarrow> (\<forall>c\<in>set s. is_white_space c)"
proof -
  have "not_trim s \<longleftrightarrow> (\<forall>c\<in>set (dropWhile is_white_space s). is_white_space c)"
    by (simp add: not_trim_def trim_def dropWhile_eq_Nil_conv)
  then show ?thesis by (simp only: dropWhile_all)
qed







subsection \<open>Validation of the creation form\<close>



subsection \<open>Tags of an artifact\<close>




subsection \<open>What the tables accept\<close>

lemma insert_opportunities_Inr_iff:
  "(\<exists>d'. insert_opportunities uid now v d = Inr d') \<longleftrightarrow>
     policy_user uid (col_value None (ov_user_id v))
     \<and> col_value None (ov_id v) \<noteq> None \<and> col_value None (ov_name v) \<noteq> None
     \<and> col_value None (ov_client_name v) \<noteq> None
     \<and> col_value (Some (js ''pre_assessment'')) (ov_current_phase v) \<noteq> None
     \<and> col_value (Some (js ''active'')) (ov_status v) \<noteq> None
     \<and> the (col_value None (ov_id v)) \<notin> set (map o_id (opportunities d))
     \<and> the (col_value None (ov_user_id v)) \<in> set (users d)"
  by (auto simp: insert_opportunities_def Let_def policy_user_def)

lemma insert_artifacts_Inr_iff:
  "(\<exists>d'. insert_artifacts uid now v d = Inr d') \<longleftrightarrow>
     policy_opportunity d uid (col_value None (av_opportunity_id v))
     \<and> col_value None (av_id v) \<noteq> None \<and> col_value None (av_title v) \<noteq> None
     \<and> col_value None (av_content v) \<noteq> None \<and> col_value None (av_artifact_type v) \<noteq> None
     \<and> col_value None (av_phase v) \<noteq> None
     \<and> the (col_value None (av_id v)) \<notin> set (map a_id (artifacts d))
     \<and> (col_value None (av_opportunity_id v) \<noteq> None
          \<longrightarrow> the (col_value None (av_opportunity_id v)) \<in> set (map o_id (opportunities d)))"
  by (auto simp: insert_artifacts_def Let_def)

lemma policy_opportunity_reference:
  "policy_opportunity d uid x \<Longrightarrow> x \<noteq> None \<and> the x \<in> set (map o_id (opportunities d))"
  by (auto simp: policy_opportunity_def list_ex_iff)

text \<open>
  Claim C10. The opportunities table accepts a row whatever its description is, also with
  none at all: whether an insert succeeds does not depend on the description, and a
  \<^verbatim>\<open>NULL\<close> description is stored as such. Of the three texts only the name and the
  client name are \<^verbatim>\<open>NOT NULL\<close>: an insert that passes the policy without one of them
  fails with a not-null violation. In the same way the artifacts table accepts any
  \<^verbatim>\<open>created_by\<close>, also \<^verbatim>\<open>NULL\<close>. Both are shown on rows that are accepted: an
  owner's insert of an opportunity under a new id with the description \<^verbatim>\<open>NULL\<close> or left
  out, and an insert of an artifact under a new id for an opportunity of the caller with
  \<^verbatim>\<open>created_by\<close> \<^verbatim>\<open>NULL\<close> or left out, succeed and store the row with that column
  \<^verbatim>\<open>NULL\<close>.
\<close>

theorem C10_null_description_is_stored:
  "((\<exists>d'. insert_opportunities uid now (v\<lparr>ov_description := x\<rparr>) d = Inr d')
      \<longleftrightarrow> (\<exists>d'. insert_opportunities uid now v d = Inr d'))
   \<and> (insert_opportunities uid now (v\<lparr>ov_description := VALUE None\<rparr>) d = Inr d'
        \<longrightarrow> opportunities d' \<noteq> [] \<and> o_description (last (opportunities d')) = None
            \<and> butlast (opportunities d') = opportunities d)
   \<and> (policy_user uid (col_value None (ov_user_id v)) \<and> col_value None (ov_name v) = None
        \<longrightarrow> insert_opportunities uid now v d = Inl not_null_violation)
   \<and> (policy_user uid (col_value None (ov_user_id v)) \<and> col_value None (ov_client_name v) = None
        \<longrightarrow> insert_opportunities uid now v d = Inl not_null_violation)
   \<and> ((\<exists>d'. insert_artifacts uid now (w\<lparr>av_created_by := y\<rparr>) d = Inr d')
        \<longleftrightarrow> (\<exists>d'. insert_artifacts uid now w d = Inr d'))
   \<and> (insert_artifacts uid now (w\<lparr>av_created_by := VALUE None\<rparr>) d = Inr d''
        \<longrightarrow> artifacts d'' \<noteq> [] \<and> a_created_by (last (artifacts d'')) = None
            \<and> butlast (artifacts d'') = artifacts d)
   \<and> (policy_user uid (Some u) \<and> u \<in> set (users d) \<and> oid \<notin> set (map o_id (opportunities d))
        \<and> col_value None c = None
        \<longrightarrow> insert_opportunities uid now
                \<lparr> ov_id = VALUE (Some oid), ov_user_id = VALUE (Some u), ov_name = VALUE (Some name),
                  ov_client_name = VALUE (Some client_name), ov_description = c,
                  ov_current_phase = DEFAULT, ov_status = DEFAULT, ov_created_at = DEFAULT,
                  ov_context_summary = DEFAULT, ov_stakeholders = DEFAULT,
                  ov_key_insights = DEFAULT \<rparr> d
              = Inr (d\<lparr>opportunities := opportunities d @
                  [\<lparr> o_id = oid, o_user_id = u, o_name = name, o_client_name = client_name,
                     o_description = None, o_current_phase = js ''pre_assessment'',
                     o_status = js ''active'', o_created_at = Some now,
                     o_context_summary = Some [], o_stakeholders = Some [],
                     o_key_insights = Some [] \<rparr>]\<rparr>))
   \<and> (policy_opportunity d uid (Some oid) \<and> aid \<notin> set (map a_id (artifacts d))
        \<and> col_value None c' = None
        \<longrightarrow> insert_artifacts uid now
                \<lparr> av_id = VALUE (Some aid), av_opportunity_id = VALUE (Some oid),
                  av_title = VALUE (Some title), av_content = VALUE (Some content),
                  av_artifact_type = VALUE (Some artifact_type), av_phase = VALUE (Some phase),
                  av_created_by = c', av_created_at = DEFAULT, av_tags = DEFAULT \<rparr> d
              = Inr (d\<lparr>artifacts := artifacts d @
                  [\<lparr> a_id = aid, a_opportunity_id = Some oid, a_title = title,
                     a_content = content, a_artifact_type = artifact_type, a_phase = phase,
                     a_created_by = None, a_created_at = Some now, a_tags = Some [] \<rparr>]\<rparr>))"
proof (intro conjI)
  show "(\<exists>d'. insert_opportunities uid now (v\<lparr>ov_description := x\<rparr>) d = Inr d')
          \<longleftrightarrow> (\<exists>d'. insert_opportunities uid now v d = Inr d')"
    by (simp add: insert_opportunities_Inr_iff)
  show "(\<exists>d'. insert_artifacts uid now (w\<lparr>av_created_by := y\<rparr>) d = Inr d')
          \<longleftrightarrow> (\<exists>d'. insert_artifacts uid now w d = Inr d')"
    by (simp add: insert_artifacts_Inr_iff)
  show "policy_user uid (Some u) \<and> u \<in> set (users d) \<and> oid \<notin> set (map o_id (opportunities d))
        \<and> col_value None c = None
        \<longrightarrow> insert_opportunities uid now
                \<lparr> ov_id = VALUE (Some oid), ov_user_id = VALUE (Some u), ov_name = VALUE (Some name),
                  ov_client_name = VALUE (Some client_name), ov_description = c,
                  ov_current_phase = DEFAULT, ov_status = DEFAULT, ov_created_at = DEFAULT,
                  ov_context_summary = DEFAULT, ov_stakeholders = DEFAULT,
                  ov_key_insights = DEFAULT \<rparr> d
              = Inr (d\<lparr>opportunities := opportunities d @
                  [\<lparr> o_id = oid, o_user_id = u, o_name = name, o_client_name = client_name,
                     o_description = None, o_current_phase = js ''pre_assessment'',
                     o_status = js ''active'', o_created_at = Some now,
                     o_context_summary = Some [], o_stakeholders = Some [],
                     o_key_insights = Some [] \<rparr>]\<rparr>)"
    by (simp add: insert_opportunities_def)
  show "policy_opportunity d uid (Some oid) \<and> aid \<notin> set (map a_id (artifacts d))
        \<and> col_value None c' = None
        \<longrightarrow> insert_artifacts uid now
                \<lparr> av_id = VALUE (Some aid), av_opportunity_id = VALUE (Some oid),
                  av_title = VALUE (Some title), av_content = VALUE (Some content),
                  av_artifact_type = VALUE (Some artifact_type), av_phase = VALUE (Some phase),
                  av_created_by = c', av_created_at = DEFAULT, av_tags = DEFAULT \<rparr> d
              = Inr (d\<lparr>artifacts := artifacts d @
                  [\<lparr> a_id = aid, a_opportunity_id = Some oid, a_title = title,
                     a_content = content, a_artifact_type = artifact_type, a_phase = phase,
                     a_created_by = None, a_created_at = Some now, a_tags = Some [] \<rparr>]\<rparr>)"
  proof
    assume h: "policy_opportunity d uid (Some oid) \<and> aid \<notin> set (map a_id (artifacts d))
        \<and> col_value None c' = None"
    with policy_opportunity_reference [of d uid "Some oid"]
    show "insert_artifacts uid now
                \<lparr> av_id = VALUE (Some aid), av_opportunity_id = VALUE (Some oid),
                  av_title = VALUE (Some title), av_content = VALUE (Some content),
                  av_artifact_type = VALUE (Some artifact_type), av_phase = VALUE (Some phase),
                  av_created_by = c', av_created_at = DEFAULT, av_tags = DEFAULT \<rparr> d
              = Inr (d\<lparr>artifacts := artifacts d @
                  [\<lparr> a_id = aid, a_opportunity_id = Some oid, a_title = title,
                     a_content = content, a_artifact_type = artifact_type, a_phase = phase,
                     a_created_by = None, a_created_at = Some now, a_tags = Some [] \<rparr>]\<rparr>)"
      by (simp add: insert_artifacts_def)
  qed
qed (auto simp: insert_opportunities_def insert_artifacts_def Let_def split: if_splits)

theorem C10_null_description_is_stored_witness:
  "insert_opportunities (Some 1) 100
      \<lparr> ov_id = VALUE (Some (js ''o1'')), ov_user_id = VALUE (Some 1),
        ov_name = VALUE (Some (js ''Acme Transformation'')),
        ov_client_name = VALUE (Some (js ''Acme Corp'')), ov_description = VALUE None,
        ov_current_phase = DEFAULT, ov_status = DEFAULT, ov_created_at = DEFAULT,
        ov_context_summary = DEFAULT, ov_stakeholders = DEFAULT, ov_key_insights = DEFAULT \<rparr>
      (empty_db [1])
    = Inr ((empty_db [1])\<lparr>opportunities := opportunities (empty_db [1]) @
        [\<lparr> o_id = js ''o1'', o_user_id = 1, o_name = js ''Acme Transformation'',
           o_client_name = js ''Acme Corp'', o_description = None,
           o_current_phase = js ''pre_assessment'', o_status = js ''active'',
           o_created_at = Some 100, o_context_summary = Some [], o_stakeholders = Some [],
           o_key_insights = Some [] \<rparr>]\<rparr>)
   \<and> insert_opportunities (Some 1) 100
         \<lparr> ov_id = VALUE (Some (js ''o1'')), ov_user_id = VALUE (Some 1),
           ov_name = VALUE None,
           ov_client_name = VALUE (Some (js ''Acme Corp'')),
           ov_description = VALUE (Some (js ''Digital transformation'')),
           ov_current_phase = DEFAULT, ov_status = DEFAULT, ov_created_at = DEFAULT,
           ov_context_summary = DEFAULT, ov_stakeholders = DEFAULT, ov_key_insights = DEFAULT \<rparr>
         (empty_db [1]) = Inl not_null_violation
   \<and> insert_artifacts (Some 1) 103
        \<lparr> av_id = VALUE (Some (js ''a3'')), av_opportunity_id = VALUE (Some (js ''o1'')),
          av_title = VALUE (Some (js ''Second finding'')), av_content = VALUE (Some (js ''...'')),
          av_artifact_type = VALUE (Some (js ''risk'')),
          av_phase = VALUE (Some (js ''pre_assessment'')),
          av_created_by = VALUE None, av_created_at = DEFAULT, av_tags = DEFAULT \<rparr>
        scenario_db
    = Inr (scenario_db\<lparr>artifacts := artifacts scenario_db @
        [\<lparr> a_id = js ''a3'', a_opportunity_id = Some (js ''o1''),
           a_title = js ''Second finding'', a_content = js ''...'',
           a_artifact_type = js ''risk'', a_phase = js ''pre_assessment'',
           a_created_by = None, a_created_at = Some 103, a_tags = Some [] \<rparr>]\<rparr>)"
proof (intro conjI)
  have pu: "policy_user (Some 1) (Some 1)" by (simp add: policy_user_def)
  have h1: "policy_user (Some 1) (Some 1) \<and> 1 \<in> set (users (empty_db [1]))
      \<and> js ''o1'' \<notin> set (map o_id (opportunities (empty_db [1])))
      \<and> col_value None (VALUE None :: ustring col) = None"
    by (simp add: policy_user_def empty_db_def)
  from C10_null_description_is_stored
         [where uid = "Some 1" and u = 1 and d = "empty_db [1]" and oid = "js ''o1''"
            and c = "VALUE None" and now = 100 and name = "js ''Acme Transformation''"
            and client_name = "js ''Acme Corp''"] h1
  show "insert_opportunities (Some 1) 100
      \<lparr> ov_id = VALUE (Some (js ''o1'')), ov_user_id = VALUE (Some 1),
        ov_name = VALUE (Some (js ''Acme Transformation'')),
        ov_client_name = VALUE (Some (js ''Acme Corp'')), ov_description = VALUE None,
        ov_current_phase = DEFAULT, ov_status = DEFAULT, ov_created_at = DEFAULT,
        ov_context_summary = DEFAULT, ov_stakeholders = DEFAULT, ov_key_insights = DEFAULT \<rparr>
      (empty_db [1])
    = Inr ((empty_db [1])\<lparr>opportunities := opportunities (empty_db [1]) @
        [\<lparr> o_id = js ''o1'', o_user_id = 1, o_name = js ''Acme Transformation'',
           o_client_name = js ''Acme Corp'', o_description = None,
           o_current_phase = js ''pre_assessment'', o_status = js ''active'',
           o_created_at = Some 100, o_context_summary = Some [], o_stakeholders = Some [],
           o_key_insights = Some [] \<rparr>]\<rparr>)"
    by blast
  from C10_null_description_is_stored
      [where uid = "Some 1" and now = 100 and d = "empty_db [1]"
         and v =
          "\<lparr> ov_id = VALUE (Some (js ''o1'')), ov_user_id = VALUE (Some 1),
             ov_name = VALUE None,
             ov_client_name = VALUE (Some (js ''Acme Corp'')),
             ov_description = VALUE (Some (js ''Digital transformation'')),
             ov_current_phase = DEFAULT, ov_status = DEFAULT, ov_created_at = DEFAULT,
             ov_context_summary = DEFAULT, ov_stakeholders = DEFAULT,
             ov_key_insights = DEFAULT \<rparr>"]
  have "policy_user (Some 1) (col_value None (VALUE (Some (1::nat)))) \<and> col_value None (VALUE (None :: ustring option)) = None
    \<longrightarrow> insert_opportunities (Some 1) 100
         \<lparr> ov_id = VALUE (Some (js ''o1'')), ov_user_id = VALUE (Some 1),
           ov_name = VALUE None,
           ov_client_name = VALUE (Some (js ''Acme Corp'')),
           ov_description = VALUE (Some (js ''Digital transformation'')),
           ov_current_phase = DEFAULT, ov_status = DEFAULT, ov_created_at = DEFAULT,
           ov_context_summary = DEFAULT, ov_stakeholders = DEFAULT, ov_key_insights = DEFAULT \<rparr>
         (empty_db [1]) = Inl not_null_violation"
    by simp
  with pu show "insert_opportunities (Some 1) 100
         \<lparr> ov_id = VALUE (Some (js ''o1'')), ov_user_id = VALUE (Some 1),
           ov_name = VALUE None,
           ov_client_name = VALUE (Some (js ''Acme Corp'')),
           ov_description = VALUE (Some (js ''Digital transformation'')),
           ov_current_phase = DEFAULT, ov_status = DEFAULT, ov_created_at = DEFAULT,
           ov_context_summary = DEFAULT, ov_stakeholders = DEFAULT, ov_key_insights = DEFAULT \<rparr>
         (empty_db [1]) = Inl not_null_violation"
    by simp
  have h2: "policy_opportunity scenario_db (Some 1) (Some (js ''o1''))
      \<and> js ''a3'' \<notin> set (map a_id (artifacts scenario_db))
      \<and> col_value None (VALUE None :: ustring col) = None"
    by (simp add: policy_opportunity_def scenario_db_def)
  from C10_null_description_is_stored
         [where uid = "Some 1" and d = scenario_db and oid = "js ''o1''" and aid = "js ''a3''"
            and c' = "VALUE None" and now = 103 and title = "js ''Second finding''"
            and content = "js ''...''" and artifact_type = "js ''risk''"
            and phase = "js ''pre_assessment''"] h2
  show "insert_artifacts (Some 1) 103
        \<lparr> av_id = VALUE (Some (js ''a3'')), av_opportunity_id = VALUE (Some (js ''o1'')),
          av_title = VALUE (Some (js ''Second finding'')), av_content = VALUE (Some (js ''...'')),
          av_artifact_type = VALUE (Some (js ''risk'')),
          av_phase = VALUE (Some (js ''pre_assessment'')),
          av_created_by = VALUE None, av_created_at = DEFAULT, av_tags = DEFAULT \<rparr>
        scenario_db
    = Inr (scenario_db\<lparr>artifacts := artifacts scenario_db @
        [\<lparr> a_id = js ''a3'', a_opportunity_id = Some (js ''o1''),
           a_title = js ''Second finding'', a_content = js ''...'',
           a_artifact_type = js ''risk'', a_phase = js ''pre_assessment'',
           a_created_by = None, a_created_at = Some 103, a_tags = Some [] \<rparr>]\<rparr>)"
    by blast
qed

subsection \<open>Deleting an opportunity\<close>

lemma deleted_artifact_not_selected:
  assumes own: "list_ex (\<lambda>r. o_id r = oid \<and> o_user_id r = u) (opportunities d)"
    and dist: "distinct (map a_id (artifacts d))"
    and ain: "a \<in> set (artifacts d)" and ao: "a_opportunity_id a = Some oid"
  shows "filter (\<lambda>r. a_id r = a_id a)
           (select_artifacts uid (delete_opportunities (Some u) oid d)) = []"
proof -
  let ?d = "delete_opportunities (Some u) oid d"
  from own have "list_ex (\<lambda>r. o_id r = oid \<and> policy_user (Some u) (Some (o_user_id r))) (opportunities d)"
    by (auto simp: list_ex_iff policy_user_def)
  then have a: "artifacts ?d = filter (\<lambda>r. a_opportunity_id r \<noteq> Some oid) (artifacts d)"
    by (simp add: delete_opportunities_def)
  have "\<forall>r\<in>set (artifacts ?d). a_id r \<noteq> a_id a"
  proof
    fix r assume r: "r \<in> set (artifacts ?d)"
    then have rin: "r \<in> set (artifacts d)" and rne: "a_opportunity_id r \<noteq> Some oid"
      by (simp_all add: a)
    show "a_id r \<noteq> a_id a"
    proof
      assume "a_id r = a_id a"
      with dist rin ain have "r = a" by (meson distinct_map inj_onD)
      with rne ao show False by simp
    qed
  qed
  then show ?thesis
    by (auto simp: select_artifacts_def filter_empty_conv)
qed

text \<open>
  Claim C3. When an owner deletes an opportunity of theirs, the delete cascades: no
  artifact and no phase-progress row keyed to it is left, no opportunity of that owner
  with that id is left, a fetch by id of any artifact that belonged to it finds no row
  (the store's NotFound), for whoever asks, and every pointer that referred to it is
  empty afterwards, a defined value that reads as "no active opportunity", while the
  other pointers are as before.
\<close>

theorem C3_delete_cascades:
  assumes own: "list_ex (\<lambda>r. o_id r = oid \<and> o_user_id r = u) (opportunities d)"
  shows "(\<forall>r\<in>set (artifacts (delete_opportunities (Some u) oid d)). a_opportunity_id r \<noteq> Some oid)
       \<and> (\<forall>r\<in>set (phase_progress (delete_opportunities (Some u) oid d)). pp_opportunity_id r \<noteq> Some oid)
       \<and> (\<forall>r\<in>set (opportunities (delete_opportunities (Some u) oid d)). \<not> (o_id r = oid \<and> o_user_id r = u))
       \<and> (distinct (map a_id (artifacts d))
            \<longrightarrow> (\<forall>a\<in>set (artifacts d). a_opportunity_id a = Some oid
                   \<longrightarrow> (\<forall>uid. filter (\<lambda>r. a_id r = a_id a)
                                (select_artifacts uid (delete_opportunities (Some u) oid d)) = [])))
       \<and> (\<forall>uid. map ao_opportunity_id (select_active_opportunity uid (delete_opportunities (Some u) oid d))
            = map (\<lambda>r. if ao_opportunity_id r = Some oid then None else ao_opportunity_id r)
                (select_active_opportunity uid d))"
proof -
  let ?d = "delete_opportunities (Some u) oid d"
  from own have del: "list_ex (\<lambda>r. o_id r = oid \<and> policy_user (Some u) (Some (o_user_id r))) (opportunities d)"
    by (auto simp: list_ex_iff policy_user_def)
  have a: "artifacts ?d = filter (\<lambda>r. a_opportunity_id r \<noteq> Some oid) (artifacts d)"
    using del by (simp add: delete_opportunities_def)
  have p: "phase_progress ?d = filter (\<lambda>r. pp_opportunity_id r \<noteq> Some oid) (phase_progress d)"
    using del by (simp add: delete_opportunities_def)
  have o: "opportunities ?d = filter (\<lambda>r. \<not> (o_id r = oid \<and> policy_user (Some u) (Some (o_user_id r)))) (opportunities d)"
    using del by (simp add: delete_opportunities_def)
  have ao: "active_opportunity ?d = map (\<lambda>r. if ao_opportunity_id r = Some oid then r\<lparr>ao_opportunity_id := None\<rparr> else r) (active_opportunity d)"
    using del by (simp add: delete_opportunities_def)
  have 1: "\<forall>r\<in>set (artifacts ?d). a_opportunity_id r \<noteq> Some oid" by (simp add: a)
  have 2: "\<forall>r\<in>set (phase_progress ?d). pp_opportunity_id r \<noteq> Some oid" by (simp add: p)
  have 3: "\<forall>r\<in>set (opportunities ?d). \<not> (o_id r = oid \<and> o_user_id r = u)"
    by (auto simp: o policy_user_def)
  have 4: "distinct (map a_id (artifacts d))
            \<longrightarrow> (\<forall>a\<in>set (artifacts d). a_opportunity_id a = Some oid
                   \<longrightarrow> (\<forall>uid. filter (\<lambda>r. a_id r = a_id a) (select_artifacts uid ?d) = []))"
    using deleted_artifact_not_selected [OF own] by blast
  have 5: "\<forall>uid. map ao_opportunity_id (select_active_opportunity uid ?d)
            = map (\<lambda>r. if ao_opportunity_id r = Some oid then None else ao_opportunity_id r)
                (select_active_opportunity uid d)"
    by (simp add: select_active_opportunity_def ao filter_map comp_def if_distrib[of ao_user_id] if_distrib[of ao_opportunity_id] cong: if_cong)
  from 1 2 3 4 5 show ?thesis by blast
qed

theorem C3_delete_cascades_witness:
  "filter (\<lambda>r. a_id r = js ''a1'')
     (select_artifacts (Some 1) (delete_opportunities (Some 1) (js ''o1'') scenario_db)) = []
   \<and> map ao_opportunity_id
       (select_active_opportunity (Some 1) (delete_opportunities (Some 1) (js ''o1'') scenario_db))
     = [None]
   \<and> map pp_id (phase_progress (delete_opportunities (Some 1) (js ''o1'') scenario_db)) = [5]"
proof -
  let ?d = "delete_opportunities (Some 1) (js ''o1'') scenario_db"
  have own: "list_ex (\<lambda>r. o_id r = js ''o1'' \<and> o_user_id r = 1) (opportunities scenario_db)"
    by (simp add: scenario_db_def)
  from C3_delete_cascades [OF own]
  have "map ao_opportunity_id (select_active_opportunity (Some 1) ?d)
      = map (\<lambda>r. if ao_opportunity_id r = Some (js ''o1'') then None else ao_opportunity_id r)
          (select_active_opportunity (Some 1) scenario_db)"
    by blast
  also have "\<dots> = [None]"
    by (simp add: scenario_db_def select_active_opportunity_def policy_user_def)
  finally have p: "map ao_opportunity_id (select_active_opportunity (Some 1) ?d) = [None]" .
  have a: "filter (\<lambda>r. a_id r = js ''a1'') (select_artifacts (Some 1) ?d) = []"
    by (simp add: scenario_db_def delete_opportunities_def select_artifacts_def
        policy_opportunity_def policy_user_def)
  have "map pp_id (phase_progress ?d) = [5]"
    by (simp add: scenario_db_def scenario_phase_def delete_opportunities_def policy_user_def)
  with p a show ?thesis by (simp only: simp_thms)
qed

text \<open>
  Read through the service as the specification describes it: after the delete the owner
  whose pointer was on the opportunity has no active opportunity.
\<close>

lemma getActiveContext_after_delete:
  assumes "list_ex (\<lambda>r. o_id r = oid \<and> o_user_id r = u) (opportunities d)"
    and "getActive uid d = Some oid"
  shows "getActiveContext uid (delete_opportunities (Some u) oid d) = None"
proof -
  let ?d = "delete_opportunities (Some u) oid d"
  from assms(1) have del:
    "list_ex (\<lambda>r. o_id r = oid \<and> policy_user (Some u) (Some (o_user_id r))) (opportunities d)"
    by (auto simp: list_ex_iff policy_user_def)
  have "select_active_opportunity uid ?d
      = map (\<lambda>r. if ao_opportunity_id r = Some oid then r\<lparr>ao_opportunity_id := None\<rparr> else r)
          (select_active_opportunity uid d)"
    using del
    by (simp add: delete_opportunities_def select_active_opportunity_def filter_map comp_def
        if_distrib [of ao_user_id] cong: if_cong)
  with assms(2) have "getActive uid ?d = None"
    by (auto simp: getActive_def split: list.splits)
  then show ?thesis by (simp add: getActiveContext_def)
qed

lemma getArtifact_after_delete:
  assumes "list_ex (\<lambda>r. o_id r = oid \<and> o_user_id r = u) (opportunities d)"
    and "distinct (map a_id (artifacts d))"
    and "a \<in> set (artifacts d)" and "a_opportunity_id a = Some oid"
  shows "getArtifact uid (a_id a) (delete_opportunities (Some u) oid d) = Inl NotFound"
  by (simp add: getArtifact_def deleted_artifact_not_selected [OF assms])

lemma deleteOpportunity_deletes:
  "deleteOpportunity uid oid d = Inr d' \<Longrightarrow> d' = delete_opportunities uid oid d"
  by (simp add: deleteOpportunity_def split: if_splits)

subsection \<open>Counting artifacts\<close>

lemma insert_artifacts_InrD:
  assumes "insert_artifacts uid now v d = Inr d'"
  shows "policy_opportunity d uid (col_value None (av_opportunity_id v))
       \<and> (\<exists>a. d' = d\<lparr>artifacts := artifacts d @ [a]\<rparr>
              \<and> a_opportunity_id a = col_value None (av_opportunity_id v)
              \<and> Some (a_phase a) = col_value None (av_phase v)
              \<and> Some (a_id a) = col_value None (av_id v))"
  using assms by (auto simp: insert_artifacts_def Let_def split: if_splits)

lemma policy_opportunity_artifacts_update [simp]:
  "policy_opportunity (d\<lparr>artifacts := x\<rparr>) = policy_opportunity d"
  by (simp add: policy_opportunity_def fun_eq_iff)

lemma increment_artifacts_count_InrD:
  assumes "increment_artifacts_count uid oid p d = Inr d'" and "policy_opportunity d uid (Some oid)"
  shows "d' = d\<lparr>phase_progress :=
            map (\<lambda>r. if pp_opportunity_id r = Some oid \<and> pp_phase r = p
                     then r\<lparr>pp_artifacts_count := map_option (\<lambda>n. n + 1) (pp_artifacts_count r)\<rparr>
                     else r) (phase_progress d)\<rparr>"
proof -
  let ?f = "\<lambda>r. if pp_opportunity_id r = Some oid \<and> pp_phase r = p
                     \<and> policy_opportunity d uid (pp_opportunity_id r)
                 then r\<lparr>pp_artifacts_count := map_option (\<lambda>n. n + 1) (pp_artifacts_count r)\<rparr>
                 else r"
  let ?g = "\<lambda>r. if pp_opportunity_id r = Some oid \<and> pp_phase r = p
                 then r\<lparr>pp_artifacts_count := map_option (\<lambda>n. n + 1) (pp_artifacts_count r)\<rparr>
                 else r"
  have e: "map ?f (phase_progress d) = map ?g (phase_progress d)"
    using assms(2) by (intro map_cong) auto
  from assms(1) have "d' = d\<lparr>phase_progress := map ?f (phase_progress d)\<rparr>"
    by (simp add: increment_artifacts_count_def Let_def split: if_splits)
  then show ?thesis by (simp only: e)
qed

lemma files_one_step:
  assumes t: "transaction uid now [INSERT_artifacts v, CALL_increment_artifacts_count oid p] d = Inr d'"
    and k: "col_value None (av_opportunity_id v) = Some oid" "col_value None (av_phase v) = Some p"
  shows "opportunities d' = opportunities d
       \<and> (\<exists>a. artifacts d' = artifacts d @ [a] \<and> a_opportunity_id a = Some oid \<and> a_phase a = p)
       \<and> phase_progress d' =
           map (\<lambda>r. if pp_opportunity_id r = Some oid \<and> pp_phase r = p
                    then r\<lparr>pp_artifacts_count := map_option (\<lambda>n. n + 1) (pp_artifacts_count r)\<rparr>
                    else r) (phase_progress d)
       \<and> (counts_exact d \<longrightarrow> counts_exact d')"
proof -
  from t obtain d1 where i: "insert_artifacts uid now v d = Inr d1"
    and c: "increment_artifacts_count uid oid p d1 = Inr d'"
    by (auto split: sum.splits)
  from insert_artifacts_InrD [OF i] k obtain a where pol: "policy_opportunity d uid (Some oid)"
    and d1: "d1 = d\<lparr>artifacts := artifacts d @ [a]\<rparr>"
    and a: "a_opportunity_id a = Some oid" "a_phase a = p"
    by auto
  from pol have pol1: "policy_opportunity d1 uid (Some oid)" by (simp add: d1)
  note d' = increment_artifacts_count_InrD [OF c pol1]
  have filed: "\<And>x q. artifacts_filed d' x q = artifacts_filed d x q + (if x = oid \<and> q = p then 1 else 0)"
    by (simp add: d' d1 artifacts_filed_def a)
  have "counts_exact d \<longrightarrow> counts_exact d'"
  proof
    assume ce: "counts_exact d"
    show "counts_exact d'"
      unfolding counts_exact_def list_all_iff
    proof
      fix r' assume "r' \<in> set (phase_progress d')"
      then obtain r where r: "r \<in> set (phase_progress d)"
        and r': "r' = (if pp_opportunity_id r = Some oid \<and> pp_phase r = p
                    then r\<lparr>pp_artifacts_count := map_option (\<lambda>n. n + 1) (pp_artifacts_count r)\<rparr>
                    else r)"
        by (auto simp: d' d1)
      from ce r have "case pp_opportunity_id r of None \<Rightarrow> True
             | Some x \<Rightarrow> pp_artifacts_count r = Some (artifacts_filed d x (pp_phase r))"
        by (simp add: counts_exact_def list_all_iff)
      then show "case pp_opportunity_id r' of None \<Rightarrow> True
             | Some x \<Rightarrow> pp_artifacts_count r' = Some (artifacts_filed d' x (pp_phase r'))"
        by (auto simp: r' filed split: option.splits)
    qed
  qed
  then show ?thesis using a by (simp add: d' d1)
qed

lemma sequences_of_same:
  assumes "phase_progress_id_seq d' = phase_progress_id_seq d"
    and "active_opportunity_id_seq d' = active_opportunity_id_seq d"
  shows "sequences_of d' d = d"
  using assms by (simp add: sequences_of_def)

lemma files_rolled_back:
  assumes "files_artifact t"
  shows "rolled_back uid now t d d = d"
proof -
  from assms obtain v oid p where t: "t = [INSERT_artifacts v, CALL_increment_artifacts_count oid p]"
    by (auto elim: files_artifact.elims)
  show ?thesis
  proof (cases "insert_artifacts uid now v d")
    case (Inl e)
    then show ?thesis by (simp add: t sequences_of_same)
  next
    case (Inr d1)
    then have s1: "phase_progress_id_seq d1 = phase_progress_id_seq d"
      "active_opportunity_id_seq d1 = active_opportunity_id_seq d"
      by (auto simp: insert_artifacts_def Let_def split: if_splits)
    show ?thesis
    proof (cases "increment_artifacts_count uid oid p d1")
      case (Inl e)
      with Inr s1 show ?thesis by (simp add: t sequences_of_same)
    next
      case (Inr d2)
      then have "phase_progress_id_seq d2 = phase_progress_id_seq d1"
        "active_opportunity_id_seq d2 = active_opportunity_id_seq d1"
        by (auto simp: increment_artifacts_count_def Let_def split: if_splits)
      with \<open>insert_artifacts uid now v d = Inr d1\<close> Inr s1 show ?thesis
        by (simp add: t sequences_of_same)
    qed
  qed
qed

lemma run_all_files:
  assumes "list_all files_artifact ts"
  shows "opportunities (run_all uid now ts d) = opportunities d
       \<and> (counts_exact d \<longrightarrow> counts_exact (run_all uid now ts d))"
  using assms
proof (induction ts arbitrary: d)
  case Nil
  then show ?case by simp
next
  case (Cons t ts)
  then have ft: "files_artifact t" and fts: "list_all files_artifact ts" by simp_all
  from ft obtain v oid p where t: "t = [INSERT_artifacts v, CALL_increment_artifacts_count oid p]"
    and k: "col_value None (av_opportunity_id v) = Some oid" "col_value None (av_phase v) = Some p"
    by (auto elim: files_artifact.elims)
  show ?case
  proof (cases "transaction uid now t d")
    case (Inl e)
    then show ?thesis using Cons.IH [OF fts, of d] by (simp add: files_rolled_back [OF ft])
  next
    case (Inr d')
    from files_one_step [OF Inr [unfolded t] k] Cons.IH [OF fts, of d'] Inr
    show ?thesis by simp
  qed
qed

text \<open>The service's \<open>addArtifact\<close> is such a transaction, after its validation.\<close>

lemma addArtifact_files:
  assumes "addArtifact uid now new_id oid artifactType title content phase tags d = Inr d'"
  shows "\<exists>t. files_artifact t \<and> transaction uid now t d = Inr d'"
proof -
  let ?t = "[INSERT_artifacts
               \<lparr> av_id = VALUE (Some new_id), av_opportunity_id = VALUE (Some oid),
                 av_title = VALUE (Some title), av_content = VALUE (Some content),
                 av_artifact_type = VALUE (Some artifactType), av_phase = VALUE (Some phase),
                 av_created_by = DEFAULT, av_created_at = DEFAULT,
                 av_tags = VALUE (Some (tag_set tags)) \<rparr>,
             CALL_increment_artifacts_count oid phase]"
  from assms have "transaction uid now ?t d = Inr d'"
    by (simp add: addArtifact_def del: transaction.simps split: if_splits sum.splits)
  moreover have "files_artifact ?t" by simp
  ultimately show ?thesis by blast
qed

lemma addArtifact_empty_title:
  "addArtifact uid now new_id oid artifactType [] content phase tags d = Inl ValidationError"
  by (simp add: addArtifact_def)

text \<open>
  Claim C1, as the code has it. Filing an artifact under phase \<open>p\<close> of opportunity \<open>o\<close>
  (the insert of the artifact and the call of \<open>increment_artifacts_count\<close> for \<open>o\<close> and
  \<open>p\<close>, in one transaction) adds the artifact and adds one to the count of the
  phase-progress rows of the pair by the single update of the stored function; the
  opportunities table is not written, for it has no count to increment: the count of an
  opportunity is the number of its artifact rows. Hence after any sequence of such
  transactions, starting from exact counts, every phase-progress count is the number of
  artifacts filed under its pair.
\<close>

theorem C1_phase_count_follows_artifacts:
  "(files_artifact t \<and> transaction uid now t d = Inr d'
      \<longrightarrow> opportunities d' = opportunities d
          \<and> (\<exists>a oid p. artifacts d' = artifacts d @ [a]
                \<and> a_opportunity_id a = Some oid \<and> a_phase a = p
                \<and> phase_progress d' =
                    map (\<lambda>r. if pp_opportunity_id r = Some oid \<and> pp_phase r = p
                             then r\<lparr>pp_artifacts_count :=
                                      map_option (\<lambda>n. n + 1) (pp_artifacts_count r)\<rparr>
                             else r) (phase_progress d)))
   \<and> (list_all files_artifact ts
      \<longrightarrow> opportunities (run_all uid now ts d) = opportunities d
          \<and> (counts_exact d \<longrightarrow> counts_exact (run_all uid now ts d)))"
proof (intro conjI impI)
  assume "files_artifact t \<and> transaction uid now t d = Inr d'"
  then obtain v oid p where t: "t = [INSERT_artifacts v, CALL_increment_artifacts_count oid p]"
    and k: "col_value None (av_opportunity_id v) = Some oid" "col_value None (av_phase v) = Some p"
    and r: "transaction uid now t d = Inr d'"
    by (auto elim: files_artifact.elims)
  note one = files_one_step [OF r [unfolded t] k]
  from one show "opportunities d' = opportunities d" by simp
  from one show "\<exists>a oid p. artifacts d' = artifacts d @ [a]
                \<and> a_opportunity_id a = Some oid \<and> a_phase a = p
                \<and> phase_progress d' =
                    map (\<lambda>r. if pp_opportunity_id r = Some oid \<and> pp_phase r = p
                             then r\<lparr>pp_artifacts_count :=
                                      map_option (\<lambda>n. n + 1) (pp_artifacts_count r)\<rparr>
                             else r) (phase_progress d)"
    by blast
next
  assume "list_all files_artifact ts"
  then show "opportunities (run_all uid now ts d) = opportunities d"
    by (simp add: run_all_files)
next
  assume "list_all files_artifact ts" and "counts_exact d"
  then show "counts_exact (run_all uid now ts d)"
    by (simp add: run_all_files)
qed

theorem C1_phase_count_follows_artifacts_witness:
  "counts_exact
     (run_all (Some 1) 103
        [[INSERT_artifacts scenario_artifact,
          CALL_increment_artifacts_count (js ''o1'') (js ''pre_assessment'')]] scenario_db)
   \<and> map a_id
       (artifacts
          (run_all (Some 1) 103
             [[INSERT_artifacts scenario_artifact,
               CALL_increment_artifacts_count (js ''o1'') (js ''pre_assessment'')]] scenario_db))
     = [js ''a1'', js ''a2'', js ''a3'']"
proof -
  let ?ts = "[[INSERT_artifacts scenario_artifact,
               CALL_increment_artifacts_count (js ''o1'') (js ''pre_assessment'')]]"
  have f: "list_all files_artifact ?ts" by (simp add: scenario_artifact_def)
  have c: "counts_exact scenario_db"
    by (simp add: scenario_db_def scenario_phase_def counts_exact_def artifacts_filed_def)
  have "map a_id (artifacts (run_all (Some 1) 103 ?ts scenario_db))
          = [js ''a1'', js ''a2'', js ''a3'']"
    by (simp add: scenario_db_def scenario_artifact_def scenario_phase_def insert_artifacts_def
        increment_artifacts_count_def policy_opportunity_def Let_def)
  with C1_phase_count_follows_artifacts [where ts = ?ts and d = scenario_db and uid = "Some 1"
      and now = 103] f c
  show ?thesis by simp
qed

text \<open>
  The claim as the specification words it fails for the opportunity: filing an artifact
  increments the phase-progress count from 1 to 2 and leaves the opportunities table as it
  was.
\<close>

theorem C1_opportunity_row_not_updated_counterexample:
  "map_sum id (\<lambda>d. (opportunities d, map pp_artifacts_count (phase_progress d)))
     (transaction (Some 1) 103
        [INSERT_artifacts scenario_artifact,
         CALL_increment_artifacts_count (js ''o1'') (js ''pre_assessment'')] scenario_db)
   = Inr (opportunities scenario_db, [Some 2, Some 0, Some 0, Some 0, Some 1])"
  by (simp add: scenario_db_def scenario_artifact_def scenario_phase_def insert_artifacts_def
      increment_artifacts_count_def policy_opportunity_def Let_def)

subsection \<open>Creating an opportunity\<close>

lemma policy_opportunity_iff:
  "policy_opportunity d uid x \<longleftrightarrow>
     (\<exists>r\<in>set (opportunities d). Some (o_id r) = x \<and> Some (o_user_id r) = uid)"
  by (simp add: policy_opportunity_def list_ex_iff)

lemma insert_initial_phase_progress:
  "insert_phase_progress uid (initial_phase_progress new_id p) d =
     (if \<not> policy_opportunity d uid (Some new_id) then Inl insufficient_privilege
      else if list_ex (\<lambda>r. pp_opportunity_id r = Some new_id \<and> pp_phase r = p) (phase_progress d)
      then Inl unique_violation
      else if new_id \<notin> set (map o_id (opportunities d)) then Inl foreign_key_violation
      else Inr (d\<lparr>phase_progress := phase_progress d @
             [\<lparr> pp_id = phase_progress_id_seq d, pp_opportunity_id = Some new_id, pp_phase = p,
                pp_status = (if p = js ''pre_assessment'' then js ''in_progress'' else js ''not_started''),
                pp_start_date = None, pp_end_date = None, pp_key_activities = Some [],
                pp_artifacts_count = Some 0, pp_completion_percentage = Some 0 \<rparr>],
             phase_progress_id_seq := phase_progress_id_seq d + 1\<rparr>))"
  by (simp add: insert_phase_progress_def initial_phase_progress_def Let_def int4_def PHASE_ORDER_def)

lemma initial_rows:
  assumes "transaction uid now (map (\<lambda>p. INSERT_phase_progress (initial_phase_progress new_id p)) ps) d = Inr d'"
  shows "opportunities d' = opportunities d \<and> artifacts d' = artifacts d
       \<and> active_opportunity d' = active_opportunity d \<and> users d' = users d
       \<and> distinct ps
       \<and> (\<forall>p\<in>set ps. \<not> list_ex (\<lambda>r. pp_opportunity_id r = Some new_id \<and> pp_phase r = p) (phase_progress d))
       \<and> (\<exists>rs. phase_progress d' = phase_progress d @ rs \<and> map pp_phase rs = ps
             \<and> (\<forall>r\<in>set rs. pp_opportunity_id r = Some new_id
                    \<and> pp_status r = (if pp_phase r = js ''pre_assessment'' then js ''in_progress'' else js ''not_started'')
                    \<and> pp_artifacts_count r = Some 0 \<and> pp_start_date r = None))"
  using assms
proof (induction ps arbitrary: d)
  case Nil
  then show ?case by simp
next
  case (Cons p ps)
  from Cons.prems obtain d1 where
    i: "insert_phase_progress uid (initial_phase_progress new_id p) d = Inr d1"
    and t: "transaction uid now (map (\<lambda>p. INSERT_phase_progress (initial_phase_progress new_id p)) ps) d1 = Inr d'"
    by (auto split: sum.splits)
  from i have fresh: "\<not> list_ex (\<lambda>r. pp_opportunity_id r = Some new_id \<and> pp_phase r = p) (phase_progress d)"
    by (simp add: insert_initial_phase_progress split: if_splits)
  from i obtain r where d1: "d1 = d\<lparr>phase_progress := phase_progress d @ [r],
             phase_progress_id_seq := phase_progress_id_seq d + 1\<rparr>"
    and r: "pp_opportunity_id r = Some new_id" "pp_phase r = p"
       "pp_status r = (if p = js ''pre_assessment'' then js ''in_progress'' else js ''not_started'')"
       "pp_artifacts_count r = Some 0" "pp_start_date r = None"
    by (auto simp add: insert_initial_phase_progress split: if_splits)
  from Cons.IH [OF t] obtain rs where
    same: "opportunities d' = opportunities d1" "artifacts d' = artifacts d1"
      "active_opportunity d' = active_opportunity d1" "users d' = users d1"
    and dist: "distinct ps"
    and fr: "\<forall>q\<in>set ps. \<not> list_ex (\<lambda>r. pp_opportunity_id r = Some new_id \<and> pp_phase r = q) (phase_progress d1)"
    and rs: "phase_progress d' = phase_progress d1 @ rs" "map pp_phase rs = ps"
      "\<forall>r\<in>set rs. pp_opportunity_id r = Some new_id
          \<and> pp_status r = (if pp_phase r = js ''pre_assessment'' then js ''in_progress'' else js ''not_started'')
          \<and> pp_artifacts_count r = Some 0 \<and> pp_start_date r = None"
    by auto
  from fr have pnot: "p \<notin> set ps" by (auto simp: d1 r list_ex_iff)
  from fr have fr': "\<forall>q\<in>set ps. \<not> list_ex (\<lambda>r. pp_opportunity_id r = Some new_id \<and> pp_phase r = q) (phase_progress d)"
    by (auto simp: d1 list_ex_iff)
  have "phase_progress d' = phase_progress d @ (r # rs) \<and> map pp_phase (r # rs) = p # ps
      \<and> (\<forall>x\<in>set (r # rs). pp_opportunity_id x = Some new_id
          \<and> pp_status x = (if pp_phase x = js ''pre_assessment'' then js ''in_progress'' else js ''not_started'')
          \<and> pp_artifacts_count x = Some 0 \<and> pp_start_date x = None)"
    using rs r by (simp add: d1)
  then have ex: "\<exists>rs. phase_progress d' = phase_progress d @ rs \<and> map pp_phase rs = p # ps
      \<and> (\<forall>x\<in>set rs. pp_opportunity_id x = Some new_id
          \<and> pp_status x = (if pp_phase x = js ''pre_assessment'' then js ''in_progress'' else js ''not_started'')
          \<and> pp_artifacts_count x = Some 0 \<and> pp_start_date x = None)"
    by (intro exI [where x = "r # rs"])
  from same dist pnot fresh fr' ex show ?case by (simp add: d1)
qed


lemma length_filter_key:
  "distinct (map f rs) \<Longrightarrow> length (filter (\<lambda>r. f r = p) rs) = (if p \<in> f ` set rs then 1 else 0)"
  by (induction rs) auto

lemma insert_new_opportunity:
  "insert_opportunities uid now
     \<lparr> ov_id = VALUE (Some new_id), ov_user_id = VALUE uid, ov_name = VALUE (Some name),
       ov_client_name = VALUE (Some clientName), ov_description = VALUE (Some description),
       ov_current_phase = DEFAULT, ov_status = DEFAULT, ov_created_at = DEFAULT,
       ov_context_summary = DEFAULT, ov_stakeholders = VALUE (Some stakeholders),
       ov_key_insights = DEFAULT \<rparr> d =
   (if uid = None then Inl insufficient_privilege
    else if new_id \<in> set (map o_id (opportunities d)) then Inl unique_violation
    else if the uid \<notin> set (users d) then Inl foreign_key_violation
    else Inr (d\<lparr>opportunities := opportunities d @
           [\<lparr> o_id = new_id, o_user_id = the uid, o_name = name, o_client_name = clientName,
              o_description = Some description, o_current_phase = js ''pre_assessment'',
              o_status = js ''active'', o_created_at = Some now, o_context_summary = Some [],
              o_stakeholders = Some stakeholders, o_key_insights = Some [] \<rparr>]\<rparr>))"
  by (simp add: insert_opportunities_def Let_def policy_user_def)

lemma createOpportunity_InrD:
  assumes "createOpportunity uid now new_id name clientName description stakeholders d = Inr (d', opp)"
  shows "\<exists>u row rs. uid = Some u \<and> new_id \<notin> set (map o_id (opportunities d))
       \<and> row = \<lparr> o_id = new_id, o_user_id = u, o_name = name, o_client_name = clientName,
              o_description = Some description, o_current_phase = js ''pre_assessment'',
              o_status = js ''active'', o_created_at = Some now, o_context_summary = Some [],
              o_stakeholders = Some stakeholders, o_key_insights = Some [] \<rparr>
       \<and> opportunities d' = opportunities d @ [row]
       \<and> artifacts d' = artifacts d \<and> active_opportunity d' = active_opportunity d
       \<and> users d' = users d
       \<and> (\<forall>p\<in>set PHASE_ORDER. \<not> list_ex (\<lambda>r. pp_opportunity_id r = Some new_id \<and> pp_phase r = p) (phase_progress d))
       \<and> phase_progress d' = phase_progress d @ rs \<and> map pp_phase rs = PHASE_ORDER
       \<and> (\<forall>r\<in>set rs. pp_opportunity_id r = Some new_id
              \<and> pp_status r = (if pp_phase r = js ''pre_assessment'' then js ''in_progress'' else js ''not_started'')
              \<and> pp_artifacts_count r = Some 0 \<and> pp_start_date r = None)
       \<and> opp = to_Opportunity row (phase_progress_of uid new_id d') (artifacts_of uid new_id d')"
proof -
  let ?ins = "INSERT_opportunities
     \<lparr> ov_id = VALUE (Some new_id), ov_user_id = VALUE uid, ov_name = VALUE (Some name),
       ov_client_name = VALUE (Some clientName), ov_description = VALUE (Some description),
       ov_current_phase = DEFAULT, ov_status = DEFAULT, ov_created_at = DEFAULT,
       ov_context_summary = DEFAULT, ov_stakeholders = VALUE (Some stakeholders),
       ov_key_insights = DEFAULT \<rparr>"
  let ?pps = "map (\<lambda>p. INSERT_phase_progress (initial_phase_progress new_id p)) PHASE_ORDER"
  from assms obtain d2 where tr: "transaction uid now (?ins # ?pps) d = Inr d2"
    and g: "getOpportunity uid new_id d2 = Inr opp" and dd: "d' = d2"
    by (auto simp: createOpportunity_def create_statements_def split: if_splits sum.splits)
  from tr obtain d1 where i: "exec uid now ?ins d = Inr d1"
    and t: "transaction uid now ?pps d1 = Inr d'"
    unfolding dd by (auto split: sum.splits)
  from i obtain u where u: "uid = Some u" and fresh: "new_id \<notin> set (map o_id (opportunities d))"
    and d1: "d1 = d\<lparr>opportunities := opportunities d @
           [\<lparr> o_id = new_id, o_user_id = u, o_name = name, o_client_name = clientName,
              o_description = Some description, o_current_phase = js ''pre_assessment'',
              o_status = js ''active'', o_created_at = Some now, o_context_summary = Some [],
              o_stakeholders = Some stakeholders, o_key_insights = Some [] \<rparr>]\<rparr>"
    by (auto simp: insert_new_opportunity split: if_splits)
  let ?row = "\<lparr> o_id = new_id, o_user_id = u, o_name = name, o_client_name = clientName,
              o_description = Some description, o_current_phase = js ''pre_assessment'',
              o_status = js ''active'', o_created_at = Some now, o_context_summary = Some [],
              o_stakeholders = Some stakeholders, o_key_insights = Some [] \<rparr>"
  from initial_rows [OF t] obtain rs where
    same: "opportunities d' = opportunities d1" "artifacts d' = artifacts d1"
      "active_opportunity d' = active_opportunity d1" "users d' = users d1"
    and fr: "\<forall>p\<in>set PHASE_ORDER. \<not> list_ex (\<lambda>r. pp_opportunity_id r = Some new_id \<and> pp_phase r = p) (phase_progress d1)"
    and rs: "phase_progress d' = phase_progress d1 @ rs" "map pp_phase rs = PHASE_ORDER"
      "\<forall>r\<in>set rs. pp_opportunity_id r = Some new_id
          \<and> pp_status r = (if pp_phase r = js ''pre_assessment'' then js ''in_progress'' else js ''not_started'')
          \<and> pp_artifacts_count r = Some 0 \<and> pp_start_date r = None"
    by auto
  have sel: "filter (\<lambda>r. o_id r = new_id) (select_opportunities uid d') = [?row]"
    using fresh by (auto simp: select_opportunities_def same d1 u policy_user_def filter_empty_conv)
  from g have opp: "opp = to_Opportunity ?row (phase_progress_of uid new_id d') (artifacts_of uid new_id d')"
    by (simp add: getOpportunity_def dd [symmetric] sel)
  from u fresh same fr rs opp show ?thesis by (simp add: d1)
qed


lemma no_rows_for_fresh_id:
  assumes "foreign_keys d" and "new_id \<notin> set (map o_id (opportunities d))"
  shows "(\<forall>r\<in>set (phase_progress d). pp_opportunity_id r \<noteq> Some new_id)
       \<and> (\<forall>r\<in>set (artifacts d). a_opportunity_id r \<noteq> Some new_id)"
  using assms by (auto simp: foreign_keys_def list_all_iff split: option.splits)

lemma initial_rows_succeed:
  assumes "policy_opportunity d uid (Some new_id)"
    and "new_id \<in> set (map o_id (opportunities d))"
    and "distinct ps"
    and "\<forall>p\<in>set ps. \<not> list_ex (\<lambda>r. pp_opportunity_id r = Some new_id \<and> pp_phase r = p) (phase_progress d)"
  shows "\<exists>d'. transaction uid now
            (map (\<lambda>p. INSERT_phase_progress (initial_phase_progress new_id p)) ps) d = Inr d'"
  using assms
proof (induction ps arbitrary: d)
  case Nil
  then show ?case by simp
next
  case (Cons p ps)
  let ?d1 = "d\<lparr>phase_progress := phase_progress d @
             [\<lparr> pp_id = phase_progress_id_seq d, pp_opportunity_id = Some new_id, pp_phase = p,
                pp_status = (if p = js ''pre_assessment'' then js ''in_progress'' else js ''not_started''),
                pp_start_date = None, pp_end_date = None, pp_key_activities = Some [],
                pp_artifacts_count = Some 0, pp_completion_percentage = Some 0 \<rparr>],
             phase_progress_id_seq := phase_progress_id_seq d + 1\<rparr>"
  from Cons.prems have i: "insert_phase_progress uid (initial_phase_progress new_id p) d = Inr ?d1"
    by (simp add: insert_initial_phase_progress)
  have "\<exists>d'. transaction uid now
            (map (\<lambda>p. INSERT_phase_progress (initial_phase_progress new_id p)) ps) ?d1 = Inr d'"
  proof (rule Cons.IH)
    show "policy_opportunity ?d1 uid (Some new_id)"
      using Cons.prems(1) by (simp add: policy_opportunity_def)
    show "new_id \<in> set (map o_id (opportunities ?d1))" using Cons.prems(2) by simp
    show "distinct ps" using Cons.prems(3) by simp
    show "\<forall>q\<in>set ps. \<not> list_ex (\<lambda>r. pp_opportunity_id r = Some new_id \<and> pp_phase r = q) (phase_progress ?d1)"
      using Cons.prems(3,4) by (auto simp: list_ex_iff)
  qed
  with i show ?case by simp
qed

lemma PHASE_ORDER_distinct: "distinct PHASE_ORDER"
  by (simp add: PHASE_ORDER_def)

lemma createOpportunity_succeeds:
  assumes valid: "\<not> not_trim name" "\<not> not_trim clientName" "\<not> not_trim description"
    and user: "u \<in> set (users d)"
    and fresh: "new_id \<notin> set (map o_id (opportunities d))"
    and fk: "foreign_keys d"
  shows "\<exists>d' opp. createOpportunity (Some u) now new_id name clientName description stakeholders d
           = Inr (d', opp)"
proof -
  let ?row = "\<lparr> o_id = new_id, o_user_id = u, o_name = name, o_client_name = clientName,
              o_description = Some description, o_current_phase = js ''pre_assessment'',
              o_status = js ''active'', o_created_at = Some now, o_context_summary = Some [],
              o_stakeholders = Some stakeholders, o_key_insights = Some [] \<rparr>"
  let ?d1 = "d\<lparr>opportunities := opportunities d @ [?row]\<rparr>"
  let ?ins = "INSERT_opportunities
     \<lparr> ov_id = VALUE (Some new_id), ov_user_id = VALUE (Some u), ov_name = VALUE (Some name),
       ov_client_name = VALUE (Some clientName), ov_description = VALUE (Some description),
       ov_current_phase = DEFAULT, ov_status = DEFAULT, ov_created_at = DEFAULT,
       ov_context_summary = DEFAULT, ov_stakeholders = VALUE (Some stakeholders),
       ov_key_insights = DEFAULT \<rparr>"
  have i: "exec (Some u) now ?ins d = Inr ?d1"
    using user fresh by (simp add: insert_new_opportunity)
  have "\<exists>d'. transaction (Some u) now
            (map (\<lambda>p. INSERT_phase_progress (initial_phase_progress new_id p)) PHASE_ORDER) ?d1 = Inr d'"
  proof (rule initial_rows_succeed)
    show "policy_opportunity ?d1 (Some u) (Some new_id)" by (simp add: policy_opportunity_def)
    show "new_id \<in> set (map o_id (opportunities ?d1))" by simp
    show "distinct PHASE_ORDER" by (rule PHASE_ORDER_distinct)
    show "\<forall>p\<in>set PHASE_ORDER. \<not> list_ex (\<lambda>r. pp_opportunity_id r = Some new_id \<and> pp_phase r = p) (phase_progress ?d1)"
      using no_rows_for_fresh_id [OF fk fresh] by (auto simp: list_ex_iff)
  qed
  then obtain d' where t: "transaction (Some u) now
            (map (\<lambda>p. INSERT_phase_progress (initial_phase_progress new_id p)) PHASE_ORDER) ?d1 = Inr d'"
    by blast
  from initial_rows [OF t] have o: "opportunities d' = opportunities ?d1" by simp
  have "filter (\<lambda>r. o_id r = new_id) (select_opportunities (Some u) d') \<noteq> []"
    by (simp add: select_opportunities_def o policy_user_def)
  then obtain opp where "getOpportunity (Some u) new_id d' = Inr opp"
    by (cases "filter (\<lambda>r. o_id r = new_id) (select_opportunities (Some u) d')")
      (simp_all add: getOpportunity_def)
  with i t valid show ?thesis
    by (simp add: createOpportunity_def create_statements_def)
qed

lemma createOpportunity_blank:
  assumes "(\<forall>c\<in>set name. is_white_space c) \<or> (\<forall>c\<in>set clientName. is_white_space c)
      \<or> (\<forall>c\<in>set description. is_white_space c)"
  shows "createOpportunity uid now new_id name clientName description stakeholders d
       = Inl ValidationError"
  using assms by (auto simp: createOpportunity_def not_trim_iff)

text \<open>
  Claim C6. Every valid creation input (three texts that are not blank, an existing user,
  an identifier not yet used, on a database whose foreign keys hold) gives an opportunity;
  and the opportunity a creation returns is in the first phase of the fixed order, which
  is \<^verbatim>\<open>pre_assessment\<close>, has status \<^verbatim>\<open>active\<close> and no artifacts, and has one
  phase-progress entry per phase of the order, \<^verbatim>\<open>in_progress\<close> for the first phase
  and \<^verbatim>\<open>not_started\<close> for every other.
\<close>

theorem C6_new_opportunity_starts_in_first_phase:
  "(\<not> not_trim name \<and> \<not> not_trim clientName \<and> \<not> not_trim description
      \<and> u \<in> set (users d) \<and> new_id \<notin> set (map o_id (opportunities d)) \<and> foreign_keys d
     \<longrightarrow> (\<exists>d' opp. createOpportunity (Some u) now new_id name clientName description stakeholders d
            = Inr (d', opp)))
   \<and> (createOpportunity uid now new_id name clientName description stakeholders d = Inr (d', opp)
        \<and> foreign_keys d
     \<longrightarrow> hd PHASE_ORDER = js ''pre_assessment''
         \<and> opp_currentPhase opp = hd PHASE_ORDER
         \<and> opp_status opp = js ''active''
         \<and> opp_artifactsCount opp = 0
         \<and> dom (opp_phaseProgress opp) = set PHASE_ORDER
         \<and> (\<forall>p\<in>set PHASE_ORDER.
               \<exists>pg. opp_phaseProgress opp p = Some pg \<and> pg_phase pg = p
                 \<and> pg_status pg = (if p = hd PHASE_ORDER then js ''in_progress'' else js ''not_started'')
                 \<and> pg_artifactsCount pg = 0))"
proof (intro conjI impI)
  assume "\<not> not_trim name \<and> \<not> not_trim clientName \<and> \<not> not_trim description
      \<and> u \<in> set (users d) \<and> new_id \<notin> set (map o_id (opportunities d)) \<and> foreign_keys d"
  then show "\<exists>d' opp. createOpportunity (Some u) now new_id name clientName description stakeholders d
            = Inr (d', opp)"
    using createOpportunity_succeeds by blast
next
  assume a: "createOpportunity uid now new_id name clientName description stakeholders d = Inr (d', opp)
        \<and> foreign_keys d"
  then have c: "createOpportunity uid now new_id name clientName description stakeholders d = Inr (d', opp)"
    and fk: "foreign_keys d" by simp_all
  from createOpportunity_InrD [OF c] obtain u row rs where
    u: "uid = Some u" and fresh: "new_id \<notin> set (map o_id (opportunities d))"
    and rowdef: "row = \<lparr> o_id = new_id, o_user_id = u, o_name = name, o_client_name = clientName,
              o_description = Some description, o_current_phase = js ''pre_assessment'',
              o_status = js ''active'', o_created_at = Some now, o_context_summary = Some [],
              o_stakeholders = Some stakeholders, o_key_insights = Some [] \<rparr>"
    and o: "opportunities d' = opportunities d @ [row]" and ar: "artifacts d' = artifacts d"
    and rs: "phase_progress d' = phase_progress d @ rs" "map pp_phase rs = PHASE_ORDER"
      "\<forall>r\<in>set rs. pp_opportunity_id r = Some new_id
          \<and> pp_status r = (if pp_phase r = js ''pre_assessment'' then js ''in_progress'' else js ''not_started'')
          \<and> pp_artifacts_count r = Some 0 \<and> pp_start_date r = None"
    and opp: "opp = to_Opportunity row (phase_progress_of uid new_id d') (artifacts_of uid new_id d')"
    by blast
  have row: "o_current_phase row = js ''pre_assessment''" "o_status row = js ''active''"
      "o_id row = new_id" "o_user_id row = u"
    by (simp_all add: rowdef)
  note none = no_rows_for_fresh_id [OF fk fresh]
  have arts: "artifacts_of uid new_id d' = []"
    using none by (auto simp: artifacts_of_def select_artifacts_def ar filter_empty_conv)
  have pol: "policy_opportunity d' uid (Some new_id)"
    by (auto simp: policy_opportunity_def list_ex_iff o row u)
  have "filter (\<lambda>r. pp_opportunity_id r = Some new_id)
          (filter (\<lambda>r. policy_opportunity d' uid (pp_opportunity_id r)) (phase_progress d)) = []"
    using none by (auto simp: filter_empty_conv)
  moreover have "filter (\<lambda>r. pp_opportunity_id r = Some new_id)
          (filter (\<lambda>r. policy_opportunity d' uid (pp_opportunity_id r)) rs) = rs"
    using rs(3) pol by (simp add: filter_id_conv)
  ultimately have pps: "phase_progress_of uid new_id d' = rs"
    by (simp add: phase_progress_of_def select_phase_progress_def rs(1))
  have m: "opp_phaseProgress opp = map_of (map (\<lambda>p. (pp_phase p, to_PhaseProgress p)) rs)"
    by (simp add: opp to_Opportunity_def pps)
  show "hd PHASE_ORDER = js ''pre_assessment''" by (simp add: PHASE_ORDER_def)
  show "opp_currentPhase opp = hd PHASE_ORDER"
    by (simp add: opp to_Opportunity_def row PHASE_ORDER_def)
  show "opp_status opp = js ''active''" by (simp add: opp to_Opportunity_def row)
  show "opp_artifactsCount opp = 0" by (simp add: opp to_Opportunity_def arts)
  have "fst ` set (map (\<lambda>p. (pp_phase p, to_PhaseProgress p)) rs) = set (map pp_phase rs)"
    by (simp add: image_image)
  then show dom: "dom (opp_phaseProgress opp) = set PHASE_ORDER"
    by (simp only: m dom_map_of_conv_image_fst rs(2))
  show "\<forall>p\<in>set PHASE_ORDER.
               \<exists>pg. opp_phaseProgress opp p = Some pg \<and> pg_phase pg = p
                 \<and> pg_status pg = (if p = hd PHASE_ORDER then js ''in_progress'' else js ''not_started'')
                 \<and> pg_artifactsCount pg = 0"
  proof
    fix p assume "p \<in> set PHASE_ORDER"
    with dom obtain pg where pg: "opp_phaseProgress opp p = Some pg" by auto
    then have "(p, pg) \<in> set (map (\<lambda>p. (pp_phase p, to_PhaseProgress p)) rs)"
      unfolding m by (rule map_of_SomeD)
    then obtain r where r: "r \<in> set rs" "pp_phase r = p" "pg = to_PhaseProgress r" by auto
    with rs(3) have "pg_phase pg = p
        \<and> pg_status pg = (if p = hd PHASE_ORDER then js ''in_progress'' else js ''not_started'')
        \<and> pg_artifactsCount pg = 0"
      by (simp add: to_PhaseProgress_def PHASE_ORDER_def)
    with pg show "\<exists>pg. opp_phaseProgress opp p = Some pg \<and> pg_phase pg = p
                 \<and> pg_status pg = (if p = hd PHASE_ORDER then js ''in_progress'' else js ''not_started'')
                 \<and> pg_artifactsCount pg = 0"
      by blast
  qed
qed

theorem C6_new_opportunity_starts_in_first_phase_witness:
  "\<exists>d' opp.
     createOpportunity (Some 1) 100 (js ''o1'') (js ''Acme Transformation'') (js ''Acme Corp'')
       (js ''Digital transformation'') [] (empty_db [1]) = Inr (d', opp)
     \<and> opp_currentPhase opp = js ''pre_assessment'' \<and> opp_artifactsCount opp = 0
     \<and> dom (opp_phaseProgress opp) = set PHASE_ORDER"
proof -
  have fk: "foreign_keys (empty_db [1])" by (simp add: foreign_keys_def empty_db_def)
  have valid: "\<not> not_trim (js ''Acme Transformation'') \<and> \<not> not_trim (js ''Acme Corp'')
      \<and> \<not> not_trim (js ''Digital transformation'')
      \<and> 1 \<in> set (users (empty_db [1])) \<and> js ''o1'' \<notin> set (map o_id (opportunities (empty_db [1])))
      \<and> foreign_keys (empty_db [1])"
  proof -
    have "\<not> not_trim (js ''Acme Transformation'') \<and> \<not> not_trim (js ''Acme Corp'')
      \<and> \<not> not_trim (js ''Digital transformation'')"
      by (simp add: not_trim_iff is_white_space_def js_def)
    with fk show ?thesis by (simp add: empty_db_def)
  qed
  note t = C6_new_opportunity_starts_in_first_phase
    [where u = 1 and uid = "Some 1" and now = 100 and new_id = "js ''o1''" and d = "empty_db [1]"
       and name = "js ''Acme Transformation''" and clientName = "js ''Acme Corp''"
       and description = "js ''Digital transformation''" and stakeholders = "[]"]
  from t valid obtain d' opp where c:
    "createOpportunity (Some 1) 100 (js ''o1'') (js ''Acme Transformation'') (js ''Acme Corp'')
       (js ''Digital transformation'') [] (empty_db [1]) = Inr (d', opp)"
    by blast
  from C6_new_opportunity_starts_in_first_phase
    [where uid = "Some 1" and now = 100 and new_id = "js ''o1''" and d = "empty_db [1]"
       and name = "js ''Acme Transformation''" and clientName = "js ''Acme Corp''"
       and description = "js ''Digital transformation''" and stakeholders = "[]"
       and d' = d' and opp = opp] c fk
  have "opp_currentPhase opp = js ''pre_assessment'' \<and> opp_artifactsCount opp = 0
     \<and> dom (opp_phaseProgress opp) = set PHASE_ORDER"
    by simp
  with c show ?thesis by blast
qed

subsection \<open>The active opportunity\<close>

lemma filter_map_key:
  "(\<And>r. k (f r) = k r) \<Longrightarrow> filter (\<lambda>r. k r = a) (map f xs) = map f (filter (\<lambda>r. k r = a) xs)"
  by (induction xs) auto

lemma upsert_pointer:
  "upsert_active_opportunity (Some u) now
     \<lparr> aov_user_id = VALUE (Some u), aov_opportunity_id = VALUE (Some oid),
       aov_updated_at = DEFAULT \<rparr> d =
   (if u \<notin> set (users d) \<or> oid \<notin> set (map o_id (opportunities d)) then Inl foreign_key_violation
    else if u \<in> set (map ao_user_id (active_opportunity d))
    then Inr (d\<lparr>active_opportunity :=
           map (\<lambda>r. if ao_user_id r = u
                    then r\<lparr>ao_opportunity_id := Some oid, ao_updated_at := Some now\<rparr> else r)
             (active_opportunity d),
           active_opportunity_id_seq := active_opportunity_id_seq d + 1\<rparr>)
    else Inr (d\<lparr>active_opportunity := active_opportunity d @
           [\<lparr> ao_id = active_opportunity_id_seq d, ao_user_id = u,
              ao_opportunity_id = Some oid, ao_updated_at = Some now \<rparr>],
           active_opportunity_id_seq := active_opportunity_id_seq d + 1\<rparr>))"
  by (simp add: upsert_active_opportunity_def Let_def policy_user_def)

lemma select_pointer_user':
  "select_active_opportunity (Some u) d = filter (\<lambda>r. ao_user_id r = u) (active_opportunity d)"
  unfolding select_active_opportunity_def policy_user_def by (rule filter_cong) auto

lemma activate_InrD:
  assumes "activate (Some u) now oid d = Inr d'"
  shows "(u \<in> set (map ao_user_id (active_opportunity d))
          \<and> active_opportunity d' =
              map (\<lambda>r. if ao_user_id r = u
                       then r\<lparr>ao_opportunity_id := Some oid, ao_updated_at := Some now\<rparr> else r)
                (active_opportunity d))
       \<or> (u \<notin> set (map ao_user_id (active_opportunity d))
          \<and> (\<exists>n. active_opportunity d' = active_opportunity d @
                [\<lparr> ao_id = n, ao_user_id = u, ao_opportunity_id = Some oid,
                   ao_updated_at = Some now \<rparr>]))"
  using assms
  by (auto simp: activate_def upsert_pointer split: if_splits sum.splits)

text \<open>
  Claim C2. The pointer table has at most one row per owner (\<^verbatim>\<open>UNIQUE(user_id)\<close>), so
  an owner has at most one active opportunity. An owner can activate an opportunity of
  theirs; the activation is an upsert: it keeps the rows of the table distinct by owner,
  leaves exactly one pointer for the owner, on the activated opportunity, adds a row only
  when the owner had none, and leaves the pointers of every other owner as they were. A
  plain insert of a second pointer for an owner is refused with a uniqueness violation.
\<close>

theorem C2_one_active_pointer_per_owner:
  "(distinct (map ao_user_id (active_opportunity d))
      \<longrightarrow> length (select_active_opportunity (Some u) d) \<le> 1)
   \<and> (list_ex (\<lambda>r. o_id r = oid \<and> o_user_id r = u) (opportunities d) \<and> u \<in> set (users d)
      \<longrightarrow> (\<exists>d'. activate (Some u) now oid d = Inr d'))
   \<and> (distinct (map ao_user_id (active_opportunity d)) \<and> activate (Some u) now oid d = Inr d'
      \<longrightarrow> distinct (map ao_user_id (active_opportunity d'))
          \<and> map ao_opportunity_id (select_active_opportunity (Some u) d') = [Some oid]
          \<and> getActive (Some u) d' = Some oid
          \<and> (\<forall>u'. u' \<noteq> u
                \<longrightarrow> select_active_opportunity (Some u') d' = select_active_opportunity (Some u') d)
          \<and> length (active_opportunity d') =
              (if u \<in> set (map ao_user_id (active_opportunity d))
               then length (active_opportunity d) else length (active_opportunity d) + 1))
   \<and> (u \<in> set (map ao_user_id (active_opportunity d)) \<and> col_value None (aov_user_id v) = Some u
      \<longrightarrow> insert_active_opportunity (Some u) now v d = Inl unique_violation)"
proof (intro conjI impI)
  assume "distinct (map ao_user_id (active_opportunity d))"
  then show "length (select_active_opportunity (Some u) d) \<le> 1"
    by (simp add: select_pointer_user' length_filter_key)
next
  assume "list_ex (\<lambda>r. o_id r = oid \<and> o_user_id r = u) (opportunities d) \<and> u \<in> set (users d)"
  then have v: "filter (\<lambda>r. o_id r = oid) (select_opportunities (Some u) d) \<noteq> []"
    and i: "oid \<in> set (map o_id (opportunities d))" and us: "u \<in> set (users d)"
    by (auto simp: list_ex_iff select_opportunities_def policy_user_def filter_empty_conv)
  then show "\<exists>d'. activate (Some u) now oid d = Inr d'"
    by (simp add: activate_def upsert_pointer)
next
  assume a: "distinct (map ao_user_id (active_opportunity d)) \<and> activate (Some u) now oid d = Inr d'"
  then have dist: "distinct (map ao_user_id (active_opportunity d))"
    and act: "activate (Some u) now oid d = Inr d'" by simp_all
  let ?f = "\<lambda>r. if ao_user_id r = u
                 then r\<lparr>ao_opportunity_id := Some oid, ao_updated_at := Some now\<rparr> else r"
  have fu: "\<And>r. ao_user_id (?f r) = ao_user_id r" by simp
  from activate_InrD [OF act]
  have "distinct (map ao_user_id (active_opportunity d'))
      \<and> map ao_opportunity_id (filter (\<lambda>r. ao_user_id r = u) (active_opportunity d')) = [Some oid]
      \<and> (\<forall>u'. u' \<noteq> u \<longrightarrow> filter (\<lambda>r. ao_user_id r = u') (active_opportunity d')
                            = filter (\<lambda>r. ao_user_id r = u') (active_opportunity d))
      \<and> length (active_opportunity d') =
              (if u \<in> set (map ao_user_id (active_opportunity d))
               then length (active_opportunity d) else length (active_opportunity d) + 1)"
  proof (elim disjE conjE exE)
    assume uin: "u \<in> set (map ao_user_id (active_opportunity d))"
      and d': "active_opportunity d' = map ?f (active_opportunity d)"
    from dist uin have "length (filter (\<lambda>r. ao_user_id r = u) (active_opportunity d)) = 1"
      by (simp add: length_filter_key)
    then obtain x where x: "filter (\<lambda>r. ao_user_id r = u) (active_opportunity d) = [x]"
      by (auto simp: length_Suc_conv)
    then have "x \<in> set (filter (\<lambda>r. ao_user_id r = u) (active_opportunity d))" by simp
    then have xu: "ao_user_id x = u" by simp
    have "filter (\<lambda>r. ao_user_id r = u) (map ?f (active_opportunity d))
        = map ?f (filter (\<lambda>r. ao_user_id r = u) (active_opportunity d))"
      by (rule filter_map_key) simp
    then have 1: "map ao_opportunity_id (filter (\<lambda>r. ao_user_id r = u) (active_opportunity d')) = [Some oid]"
      by (simp add: d' x xu)
    have 2: "\<forall>u'. u' \<noteq> u \<longrightarrow> filter (\<lambda>r. ao_user_id r = u') (active_opportunity d')
                            = filter (\<lambda>r. ao_user_id r = u') (active_opportunity d)"
    proof (intro allI impI)
      fix u' assume ne: "u' \<noteq> u"
      have "filter (\<lambda>r. ao_user_id r = u') (map ?f (active_opportunity d))
          = map ?f (filter (\<lambda>r. ao_user_id r = u') (active_opportunity d))"
        by (rule filter_map_key) simp
      also have "\<dots> = filter (\<lambda>r. ao_user_id r = u') (active_opportunity d)"
        using ne by (intro map_idI) auto
      finally show "filter (\<lambda>r. ao_user_id r = u') (active_opportunity d')
                            = filter (\<lambda>r. ao_user_id r = u') (active_opportunity d)"
        by (simp add: d')
    qed
    have "map ao_user_id (map ?f (active_opportunity d)) = map ao_user_id (active_opportunity d)"
      by (simp add: comp_def)
    with dist have 3: "distinct (map ao_user_id (active_opportunity d'))" by (simp only: d')
    from 1 2 3 uin show ?thesis by (simp add: d')
  next
    fix n
    assume unot: "u \<notin> set (map ao_user_id (active_opportunity d))"
      and d': "active_opportunity d' = active_opportunity d @
                [\<lparr> ao_id = n, ao_user_id = u, ao_opportunity_id = Some oid,
                   ao_updated_at = Some now \<rparr>]"
    from unot have "filter (\<lambda>r. ao_user_id r = u) (active_opportunity d) = []"
      by (auto simp: filter_empty_conv)
    with dist unot show ?thesis by (auto simp: d')
  qed
  then have all: "distinct (map ao_user_id (active_opportunity d'))
      \<and> map ao_opportunity_id (select_active_opportunity (Some u) d') = [Some oid]
      \<and> (\<forall>u'. u' \<noteq> u
            \<longrightarrow> select_active_opportunity (Some u') d' = select_active_opportunity (Some u') d)
      \<and> length (active_opportunity d') =
              (if u \<in> set (map ao_user_id (active_opportunity d))
               then length (active_opportunity d) else length (active_opportunity d) + 1)"
    unfolding select_pointer_user' .
  from all show "distinct (map ao_user_id (active_opportunity d'))" by blast
  from all show p: "map ao_opportunity_id (select_active_opportunity (Some u) d') = [Some oid]"
    by blast
  from all show "\<forall>u'. u' \<noteq> u
                \<longrightarrow> select_active_opportunity (Some u') d' = select_active_opportunity (Some u') d"
    by blast
  from all show "length (active_opportunity d') =
              (if u \<in> set (map ao_user_id (active_opportunity d))
               then length (active_opportunity d) else length (active_opportunity d) + 1)"
    by blast
  from p show "getActive (Some u) d' = Some oid"
    by (cases "select_active_opportunity (Some u) d'") (simp_all add: getActive_def)
next
  assume "u \<in> set (map ao_user_id (active_opportunity d)) \<and> col_value None (aov_user_id v) = Some u"
  then show "insert_active_opportunity (Some u) now v d = Inl unique_violation"
    by (simp add: insert_active_opportunity_def Let_def policy_user_def)
qed

theorem C2_one_active_pointer_per_owner_witness:
  "\<exists>d'. activate (Some 1) 103 (js ''o1'')
          (scenario_db\<lparr>active_opportunity :=
             [\<lparr> ao_id = 1, ao_user_id = 1, ao_opportunity_id = None, ao_updated_at = Some 102 \<rparr>,
              \<lparr> ao_id = 2, ao_user_id = 2, ao_opportunity_id = Some (js ''o2''),
                ao_updated_at = Some 102 \<rparr>]\<rparr>) = Inr d'
        \<and> getActive (Some 1) d' = Some (js ''o1'')
        \<and> length (active_opportunity d') = 2"
proof -
  let ?d = "scenario_db\<lparr>active_opportunity :=
             [\<lparr> ao_id = 1, ao_user_id = 1, ao_opportunity_id = None, ao_updated_at = Some 102 \<rparr>,
              \<lparr> ao_id = 2, ao_user_id = 2, ao_opportunity_id = Some (js ''o2''),
                ao_updated_at = Some 102 \<rparr>]\<rparr>"
  note t = C2_one_active_pointer_per_owner [where d = ?d and u = 1 and oid = "js ''o1''" and now = 103]
  have own: "list_ex (\<lambda>r. o_id r = js ''o1'' \<and> o_user_id r = 1) (opportunities ?d) \<and> 1 \<in> set (users ?d)"
    by (simp add: scenario_db_def)
  with t obtain d' where a: "activate (Some 1) 103 (js ''o1'') ?d = Inr d'" by blast
  have dist: "distinct (map ao_user_id (active_opportunity ?d))" by simp
  have uin: "1 \<in> set (map ao_user_id (active_opportunity ?d))" by simp
  from C2_one_active_pointer_per_owner
    [where d = ?d and u = 1 and oid = "js ''o1''" and now = 103 and d' = d'] a dist uin
  have "getActive (Some 1) d' = Some (js ''o1'') \<and> length (active_opportunity d') = 2"
    by simp
  with a show ?thesis by blast
qed

subsection \<open>Changing the phase\<close>

lemma policy_opportunity_phase_progress_update [simp]:
  "policy_opportunity (d\<lparr>phase_progress := x\<rparr>) = policy_opportunity d"
  by (simp add: policy_opportunity_def fun_eq_iff)

lemma visible_policy:
  assumes "filter (\<lambda>r. o_id r = oid) (select_opportunities uid d) = r0 # rest"
  shows "policy_opportunity d uid (Some oid)"
proof -
  from assms have "r0 \<in> set (filter (\<lambda>r. o_id r = oid) (select_opportunities uid d))" by simp
  then show ?thesis
    by (auto simp: select_opportunities_def policy_user_def policy_opportunity_iff)
qed

lemma update_phase_status_visible:
  assumes "policy_opportunity d uid (Some oid)"
  shows "update_phase_status uid oid phase old new start d =
     d\<lparr>phase_progress :=
         map (\<lambda>r. if pp_opportunity_id r = Some oid \<and> pp_phase r = phase \<and> pp_status r = old
                  then r\<lparr>pp_status := new,
                         pp_start_date := (case start of None \<Rightarrow> pp_start_date r | Some t \<Rightarrow> Some t)\<rparr>
                  else r)
           (phase_progress d)\<rparr>"
proof -
  have "map (\<lambda>r. if pp_opportunity_id r = Some oid \<and> pp_phase r = phase \<and> pp_status r = old
                     \<and> policy_opportunity d uid (pp_opportunity_id r)
                  then r\<lparr>pp_status := new,
                         pp_start_date := (case start of None \<Rightarrow> pp_start_date r | Some t \<Rightarrow> Some t)\<rparr>
                  else r) (phase_progress d)
      = map (\<lambda>r. if pp_opportunity_id r = Some oid \<and> pp_phase r = phase \<and> pp_status r = old
                  then r\<lparr>pp_status := new,
                         pp_start_date := (case start of None \<Rightarrow> pp_start_date r | Some t \<Rightarrow> Some t)\<rparr>
                  else r) (phase_progress d)"
    using assms by (intro map_cong) auto
  then show ?thesis by (simp only: update_phase_status_def)
qed

lemma map_o_id_current_phase:
  "map o_id (map (\<lambda>r. if P r then r\<lparr>o_current_phase := t\<rparr> else r) xs) = map o_id xs"
  by (induction xs) auto

lemma select_current_phase:
  "filter (\<lambda>r. o_id r = oid)
     (filter (\<lambda>r. policy_user uid (Some (o_user_id r)))
        (map (\<lambda>r. if o_id r = oid \<and> policy_user uid (Some (o_user_id r))
                 then r\<lparr>o_current_phase := t\<rparr> else r) xs))
   = map (\<lambda>r. r\<lparr>o_current_phase := t\<rparr>)
       (filter (\<lambda>r. o_id r = oid) (filter (\<lambda>r. policy_user uid (Some (o_user_id r))) xs))"
  by (induction xs) simp_all

lemma changePhase_result:
  assumes vis: "filter (\<lambda>r. o_id r = oid) (select_opportunities uid d) = r0 # rest"
    and target: "targetPhase \<in> set PHASE_ORDER"
  shows "changePhase uid now oid targetPhase d =
     Inr (d\<lparr>opportunities :=
              map (\<lambda>r. if o_id r = oid \<and> policy_user uid (Some (o_user_id r))
                       then r\<lparr>o_current_phase := targetPhase\<rparr> else r) (opportunities d),
            phase_progress :=
              map (\<lambda>r. if pp_opportunity_id r = Some oid \<and> pp_phase r = o_current_phase r0
                          \<and> pp_status r = js ''in_progress''
                       then r\<lparr>pp_status := js ''completed''\<rparr>
                       else if pp_opportunity_id r = Some oid \<and> pp_phase r = targetPhase
                          \<and> pp_status r = js ''not_started''
                       then r\<lparr>pp_status := js ''in_progress'', pp_start_date := Some now\<rparr>
                       else r) (phase_progress d)\<rparr>)"
proof -
  let ?cur = "o_current_phase r0"
  define g1 where "g1 = (\<lambda>r::phase_progress_row. if pp_opportunity_id r = Some oid \<and> pp_phase r = ?cur
                              \<and> pp_status r = js ''in_progress''
                  then r\<lparr>pp_status := js ''completed'',
                         pp_start_date := (case None of None \<Rightarrow> pp_start_date r | Some t \<Rightarrow> Some t)\<rparr>
                  else r)"
  define g2 where "g2 = (\<lambda>r::phase_progress_row. if pp_opportunity_id r = Some oid \<and> pp_phase r = targetPhase
                              \<and> pp_status r = js ''not_started''
                  then r\<lparr>pp_status := js ''in_progress'',
                         pp_start_date := (case Some now of None \<Rightarrow> pp_start_date r | Some t \<Rightarrow> Some t)\<rparr>
                  else r)"
  define F where "F = (\<lambda>r::phase_progress_row. if pp_opportunity_id r = Some oid \<and> pp_phase r = ?cur
                          \<and> pp_status r = js ''in_progress''
                       then r\<lparr>pp_status := js ''completed''\<rparr>
                       else if pp_opportunity_id r = Some oid \<and> pp_phase r = targetPhase
                          \<and> pp_status r = js ''not_started''
                       then r\<lparr>pp_status := js ''in_progress'', pp_start_date := Some now\<rparr>
                       else r)"
  define d1 where "d1 = update_phase_status uid oid ?cur (js ''in_progress'') (js ''completed'') None d"
  define d2 where "d2 = update_phase_status uid oid targetPhase (js ''not_started'') (js ''in_progress'') (Some now) d1"
  define d3 where "d3 = update_current_phase uid oid targetPhase d2"
  note pol = visible_policy [OF vis]
  have d1: "d1 = d\<lparr>phase_progress := map g1 (phase_progress d)\<rparr>"
    unfolding d1_def g1_def by (rule update_phase_status_visible [OF pol])
  have pol1: "policy_opportunity d1 uid (Some oid)" using pol by (simp add: d1)
  have d2: "d2 = d1\<lparr>phase_progress := map g2 (phase_progress d1)\<rparr>"
    unfolding d2_def g2_def by (rule update_phase_status_visible [OF pol1])
  have F: "\<And>r. g2 (g1 r) = F r"
    by (simp add: F_def g1_def g2_def)
  have pp2: "phase_progress d2 = map F (phase_progress d)"
    by (simp add: d2 d1 F)
  have d2': "d2 = d\<lparr>phase_progress := map F (phase_progress d)\<rparr>"
    by (simp add: d2 d1 F)
  have d3: "d3 = d\<lparr>opportunities :=
              map (\<lambda>r. if o_id r = oid \<and> policy_user uid (Some (o_user_id r))
                       then r\<lparr>o_current_phase := targetPhase\<rparr> else r) (opportunities d),
            phase_progress := map F (phase_progress d)\<rparr>"
    by (simp add: d3_def update_current_phase_def d2')
  have c: "changePhase uid now oid targetPhase d = Inr d3"
    unfolding d3_def d2_def d1_def using target by (simp add: changePhase_def vis)
  show ?thesis unfolding c d3 F_def ..
qed

text \<open>
  Claim C7. A phase change to any phase of the defined set succeeds for an opportunity its
  owner can read, whatever the current phase is: forward, backward, over phases in
  between, and to the current phase itself (the one request the drawer does not send).
  On the transition a phase-progress row of the opportunity for the phase left becomes
  \<^verbatim>\<open>completed\<close> if it was \<^verbatim>\<open>in_progress\<close>; otherwise a row of the opportunity for the
  phase entered becomes \<^verbatim>\<open>in_progress\<close>, with its start date set, if it was
  \<^verbatim>\<open>not_started\<close>; every other row, and every other column, is as it was, so no start
  date is set on a later entry. The opportunity is in the target phase afterwards. The
  artifacts are untouched and every row keeps its artifact count: what was filed under
  the phase left is filed and counted there as before.
\<close>

theorem C7_any_phase_may_be_entered:
  assumes vis: "filter (\<lambda>r. o_id r = oid) (select_opportunities uid d) = r0 # rest"
    and target: "targetPhase \<in> set PHASE_ORDER"
  shows "handleMoveToPhase targetPhase (o_current_phase r0)
      = (if targetPhase = o_current_phase r0 then None else Some targetPhase)
    \<and> (\<exists>d'. changePhase uid now oid targetPhase d = Inr d'
         \<and> filter (\<lambda>r. o_id r = oid) (select_opportunities uid d')
             = map (\<lambda>r. r\<lparr>o_current_phase := targetPhase\<rparr>) (r0 # rest)
         \<and> map o_id (opportunities d') = map o_id (opportunities d)
         \<and> phase_progress d' =
             map (\<lambda>r. if pp_opportunity_id r = Some oid \<and> pp_phase r = o_current_phase r0
                         \<and> pp_status r = js ''in_progress''
                      then r\<lparr>pp_status := js ''completed''\<rparr>
                      else if pp_opportunity_id r = Some oid \<and> pp_phase r = targetPhase
                         \<and> pp_status r = js ''not_started''
                      then r\<lparr>pp_status := js ''in_progress'', pp_start_date := Some now\<rparr>
                      else r) (phase_progress d)
         \<and> artifacts d' = artifacts d
         \<and> map pp_artifacts_count (phase_progress d') = map pp_artifacts_count (phase_progress d)
         \<and> (counts_exact d \<longrightarrow> counts_exact d'))"
proof -
  let ?g = "\<lambda>r. if o_id r = oid \<and> policy_user uid (Some (o_user_id r))
                       then r\<lparr>o_current_phase := targetPhase\<rparr> else r"
  let ?F = "\<lambda>r. if pp_opportunity_id r = Some oid \<and> pp_phase r = o_current_phase r0
                         \<and> pp_status r = js ''in_progress''
                      then r\<lparr>pp_status := js ''completed''\<rparr>
                      else if pp_opportunity_id r = Some oid \<and> pp_phase r = targetPhase
                         \<and> pp_status r = js ''not_started''
                      then r\<lparr>pp_status := js ''in_progress'', pp_start_date := Some now\<rparr>
                      else r"
  define d' where "d' = d\<lparr>opportunities := map ?g (opportunities d),
                          phase_progress := map ?F (phase_progress d)\<rparr>"
  have c: "changePhase uid now oid targetPhase d = Inr d'"
    unfolding d'_def by (rule changePhase_result [OF vis target])
  have o: "opportunities d' = map ?g (opportunities d)"
    and p: "phase_progress d' = map ?F (phase_progress d)"
    and a: "artifacts d' = artifacts d"
    by (simp_all add: d'_def)
  have sel: "filter (\<lambda>r. o_id r = oid) (select_opportunities uid d')
             = map (\<lambda>r. r\<lparr>o_current_phase := targetPhase\<rparr>) (r0 # rest)"
    unfolding select_opportunities_def o select_current_phase
    using vis by (simp only: select_opportunities_def)
  have ids: "map o_id (opportunities d') = map o_id (opportunities d)"
    unfolding o by (rule map_o_id_current_phase)
  have cnt: "map pp_artifacts_count (phase_progress d') = map pp_artifacts_count (phase_progress d)"
    unfolding p by (induction "phase_progress d") simp_all
  have ce: "counts_exact d \<longrightarrow> counts_exact d'"
  proof
    assume ce: "counts_exact d"
    have f: "\<And>x p. artifacts_filed d' x p = artifacts_filed d x p"
      by (simp add: artifacts_filed_def a)
    show "counts_exact d'"
      unfolding counts_exact_def list_all_iff p
    proof
      fix r' assume "r' \<in> set (map ?F (phase_progress d))"
      then obtain r where r: "r \<in> set (phase_progress d)" and e: "r' = ?F r" by auto
      from ce r have old: "case pp_opportunity_id r of None \<Rightarrow> True
          | Some x \<Rightarrow> pp_artifacts_count r = Some (artifacts_filed d x (pp_phase r))"
        by (simp add: counts_exact_def list_all_iff)
      have k: "pp_opportunity_id r' = pp_opportunity_id r" "pp_phase r' = pp_phase r"
        "pp_artifacts_count r' = pp_artifacts_count r"
        unfolding e by simp_all
      from old show "case pp_opportunity_id r' of None \<Rightarrow> True
          | Some x \<Rightarrow> pp_artifacts_count r' = Some (artifacts_filed d' x (pp_phase r'))"
        by (simp add: k f split: option.splits)
    qed
  qed
  have h: "handleMoveToPhase targetPhase (o_current_phase r0)
      = (if targetPhase = o_current_phase r0 then None else Some targetPhase)"
    by (simp add: handleMoveToPhase_def)
  from h c sel ids p a cnt ce show ?thesis by blast
qed

theorem C7_any_phase_may_be_entered_witness:
  "(\<exists>d'. changePhase (Some 1) 103 (js ''o1'') (js ''discovery'') scenario_db = Inr d'
        \<and> map pp_status (phase_progress d')
            = [js ''completed'', js ''in_progress'', js ''not_started'', js ''not_started'',
               js ''in_progress'']
        \<and> map pp_start_date (phase_progress d') = [None, Some 103, None, None, None]
        \<and> artifacts d' = artifacts scenario_db
        \<and> map pp_artifacts_count (phase_progress d')
            = map pp_artifacts_count (phase_progress scenario_db))
   \<and> (\<exists>d'. changePhase (Some 1) 103 (js ''o1'') (js ''pre_assessment'') scenario_db = Inr d'
        \<and> map pp_status (phase_progress d')
            = [js ''completed'', js ''not_started'', js ''not_started'', js ''not_started'',
               js ''in_progress''])"
proof -
  have vis: "filter (\<lambda>r. o_id r = js ''o1'') (select_opportunities (Some 1) scenario_db)
      = hd (opportunities scenario_db) # []"
    by (simp add: scenario_db_def select_opportunities_def policy_user_def)
  have cur: "o_current_phase (hd (opportunities scenario_db)) = js ''pre_assessment''"
    by (simp add: scenario_db_def)
  have pp: "phase_progress scenario_db =
         [scenario_phase 1 (js ''o1'') (js ''pre_assessment'') (js ''in_progress'') 1,
          scenario_phase 2 (js ''o1'') (js ''discovery'') (js ''not_started'') 0,
          scenario_phase 3 (js ''o1'') (js ''solution_design'') (js ''not_started'') 0,
          scenario_phase 4 (js ''o1'') (js ''implementation'') (js ''not_started'') 0,
          scenario_phase 5 (js ''o2'') (js ''pre_assessment'') (js ''in_progress'') 1]"
    by (simp add: scenario_db_def)
  have t1: "js ''discovery'' \<in> set PHASE_ORDER" by (simp add: PHASE_ORDER_def)
  have t2: "js ''pre_assessment'' \<in> set PHASE_ORDER" by (simp add: PHASE_ORDER_def)
  from C7_any_phase_may_be_entered [OF vis t1, of 103]
  obtain d1 where c1: "changePhase (Some 1) 103 (js ''o1'') (js ''discovery'') scenario_db = Inr d1"
    and p1: "phase_progress d1 =
             map (\<lambda>r. if pp_opportunity_id r = Some (js ''o1'')
                         \<and> pp_phase r = o_current_phase (hd (opportunities scenario_db))
                         \<and> pp_status r = js ''in_progress''
                      then r\<lparr>pp_status := js ''completed''\<rparr>
                      else if pp_opportunity_id r = Some (js ''o1'') \<and> pp_phase r = js ''discovery''
                         \<and> pp_status r = js ''not_started''
                      then r\<lparr>pp_status := js ''in_progress'', pp_start_date := Some 103\<rparr>
                      else r) (phase_progress scenario_db)"
    and a1: "artifacts d1 = artifacts scenario_db"
    and n1: "map pp_artifacts_count (phase_progress d1)
            = map pp_artifacts_count (phase_progress scenario_db)"
    by blast
  have s1: "map pp_status (phase_progress d1)
            = [js ''completed'', js ''in_progress'', js ''not_started'', js ''not_started'',
               js ''in_progress'']"
    unfolding p1 cur pp by (simp add: scenario_phase_def)
  have b1: "map pp_start_date (phase_progress d1) = [None, Some 103, None, None, None]"
    unfolding p1 cur pp by (simp add: scenario_phase_def)
  from C7_any_phase_may_be_entered [OF vis t2, of 103]
  obtain d2 where c2: "changePhase (Some 1) 103 (js ''o1'') (js ''pre_assessment'') scenario_db = Inr d2"
    and p2: "phase_progress d2 =
             map (\<lambda>r. if pp_opportunity_id r = Some (js ''o1'')
                         \<and> pp_phase r = o_current_phase (hd (opportunities scenario_db))
                         \<and> pp_status r = js ''in_progress''
                      then r\<lparr>pp_status := js ''completed''\<rparr>
                      else if pp_opportunity_id r = Some (js ''o1'') \<and> pp_phase r = js ''pre_assessment''
                         \<and> pp_status r = js ''not_started''
                      then r\<lparr>pp_status := js ''in_progress'', pp_start_date := Some 103\<rparr>
                      else r) (phase_progress scenario_db)"
    by blast
  have s2: "map pp_status (phase_progress d2)
            = [js ''completed'', js ''not_started'', js ''not_started'', js ''not_started'',
               js ''in_progress'']"
    unfolding p2 cur pp by (simp add: scenario_phase_def)
  show ?thesis
  proof (intro conjI)
    from c1 s1 b1 a1 n1
    show "\<exists>d'. changePhase (Some 1) 103 (js ''o1'') (js ''discovery'') scenario_db = Inr d'
        \<and> map pp_status (phase_progress d')
            = [js ''completed'', js ''in_progress'', js ''not_started'', js ''not_started'',
               js ''in_progress'']
        \<and> map pp_start_date (phase_progress d') = [None, Some 103, None, None, None]
        \<and> artifacts d' = artifacts scenario_db
        \<and> map pp_artifacts_count (phase_progress d')
            = map pp_artifacts_count (phase_progress scenario_db)"
      by (intro exI [where x = d1] conjI)
    from c2 s2
    show "\<exists>d'. changePhase (Some 1) 103 (js ''o1'') (js ''pre_assessment'') scenario_db = Inr d'
        \<and> map pp_status (phase_progress d')
            = [js ''completed'', js ''not_started'', js ''not_started'', js ''not_started'',
               js ''in_progress'']"
      by (intro exI [where x = d2] conjI)
  qed
qed

subsection \<open>Separation of owners\<close>

lemma filter_filter_out:
  "(\<And>x. x \<in> set xs \<Longrightarrow> P x \<Longrightarrow> Q x) \<Longrightarrow> filter P (filter Q xs) = filter P xs"
  by (induction xs) simp_all

lemma filter_map_same:
  "(\<And>x. x \<in> set xs \<Longrightarrow> P (f x) = P x) \<Longrightarrow> (\<And>x. x \<in> set xs \<Longrightarrow> P x \<Longrightarrow> f x = x)
     \<Longrightarrow> filter P (map f xs) = filter P xs"
  by (induction xs) simp_all

lemma policy_user_Some: "policy_user (Some u) (Some v) \<longleftrightarrow> v = u"
  by (auto simp: policy_user_def)

lemma policy_user_other: "uid \<noteq> Some u' \<Longrightarrow> \<not> policy_user uid (Some u')"
  by (auto simp: policy_user_def)

text \<open>An opportunity id belongs to one owner when ids are unique.\<close>

lemma policy_exclusive:
  assumes "distinct (map o_id (opportunities d))" and "policy_opportunity d uid x" and "uid \<noteq> uid'"
  shows "\<not> policy_opportunity d uid' x"
proof
  assume "policy_opportunity d uid' x"
  then obtain r' where r': "r' \<in> set (opportunities d)" "Some (o_id r') = x" "Some (o_user_id r') = uid'"
    by (auto simp: policy_opportunity_iff)
  from assms(2) obtain r where r: "r \<in> set (opportunities d)" "Some (o_id r) = x" "Some (o_user_id r) = uid"
    by (auto simp: policy_opportunity_iff)
  from r r' have "o_id r = o_id r'" by auto
  with assms(1) r(1) r'(1) have "r = r'" by (meson distinct_map inj_onD)
  with r(3) r'(3) assms(3) show False by simp
qed

text \<open>What a statement of another user must leave alone, and why the view then is the same.\<close>

lemma view_unchanged:
  assumes "select_opportunities (Some u') d' = select_opportunities (Some u') d"
    and "\<And>x. policy_opportunity d' (Some u') x = policy_opportunity d (Some u') x"
    and "filter (\<lambda>r. policy_opportunity d (Some u') (pp_opportunity_id r)) (phase_progress d')
       = filter (\<lambda>r. policy_opportunity d (Some u') (pp_opportunity_id r)) (phase_progress d)"
    and "filter (\<lambda>r. policy_opportunity d (Some u') (a_opportunity_id r)) (artifacts d')
       = filter (\<lambda>r. policy_opportunity d (Some u') (a_opportunity_id r)) (artifacts d)"
    and "select_active_opportunity (Some u') d' = select_active_opportunity (Some u') d"
  shows "view (Some u') d' = view (Some u') d"
  using assms by (simp add: view_def select_phase_progress_def select_artifacts_def)

lemma policy_same_opportunities:
  "opportunities d' = opportunities d \<Longrightarrow> policy_opportunity d' uid x = policy_opportunity d uid x"
  by (simp add: policy_opportunity_def)

lemma confined_insert_opportunities:
  assumes "insert_opportunities uid now v d = Inr d'" and "uid \<noteq> Some u'"
  shows "view (Some u') d' = view (Some u') d"
proof -
  from assms(1) obtain row where d': "d' = d\<lparr>opportunities := opportunities d @ [row]\<rparr>"
    and own: "Some (o_user_id row) = uid"
    by (auto simp: insert_opportunities_def Let_def policy_user_def split: if_splits)
  from own assms(2) have ne: "o_user_id row \<noteq> u'" by auto
  show ?thesis
  proof (rule view_unchanged)
    show "select_opportunities (Some u') d' = select_opportunities (Some u') d"
      using ne by (simp add: select_opportunities_def d' policy_user_Some)
    show "\<And>x. policy_opportunity d' (Some u') x = policy_opportunity d (Some u') x"
      using ne by (auto simp: policy_opportunity_iff d')
  qed (simp_all add: d' select_active_opportunity_def)
qed

lemma confined_insert_phase_progress:
  assumes "insert_phase_progress uid v d = Inr d'" and "uid \<noteq> Some u'"
    and "distinct (map o_id (opportunities d))"
  shows "view (Some u') d' = view (Some u') d"
proof -
  from assms(1) obtain row n where d': "d' = d\<lparr>phase_progress := phase_progress d @ [row], phase_progress_id_seq := n\<rparr>"
    and own: "policy_opportunity d uid (pp_opportunity_id row)"
    by (auto simp: insert_phase_progress_def Let_def split: if_splits)
  from policy_exclusive [OF assms(3) own assms(2)]
  have ne: "\<not> policy_opportunity d (Some u') (pp_opportunity_id row)" .
  show ?thesis
  proof (rule view_unchanged)
    show "filter (\<lambda>r. policy_opportunity d (Some u') (pp_opportunity_id r)) (phase_progress d')
       = filter (\<lambda>r. policy_opportunity d (Some u') (pp_opportunity_id r)) (phase_progress d)"
      using ne by (simp add: d')
  qed (simp_all add: d' select_active_opportunity_def select_opportunities_def policy_opportunity_def)
qed

lemma confined_insert_artifacts:
  assumes "insert_artifacts uid now v d = Inr d'" and "uid \<noteq> Some u'"
    and "distinct (map o_id (opportunities d))"
  shows "view (Some u') d' = view (Some u') d"
proof -
  from assms(1) obtain row where d': "d' = d\<lparr>artifacts := artifacts d @ [row]\<rparr>"
    and own: "policy_opportunity d uid (a_opportunity_id row)"
    by (auto simp: insert_artifacts_def Let_def split: if_splits)
  from policy_exclusive [OF assms(3) own assms(2)]
  have ne: "\<not> policy_opportunity d (Some u') (a_opportunity_id row)" .
  show ?thesis
  proof (rule view_unchanged)
    show "filter (\<lambda>r. policy_opportunity d (Some u') (a_opportunity_id r)) (artifacts d')
       = filter (\<lambda>r. policy_opportunity d (Some u') (a_opportunity_id r)) (artifacts d)"
      using ne by (simp add: d')
  qed (simp_all add: d' select_active_opportunity_def select_opportunities_def policy_opportunity_def)
qed

lemma confined_insert_active_opportunity:
  assumes "insert_active_opportunity uid now v d = Inr d'" and "uid \<noteq> Some u'"
  shows "view (Some u') d' = view (Some u') d"
proof -
  from assms(1) obtain row n where d': "d' = d\<lparr>active_opportunity := active_opportunity d @ [row], active_opportunity_id_seq := n\<rparr>"
    and own: "Some (ao_user_id row) = uid"
    by (auto simp: insert_active_opportunity_def Let_def policy_user_def split: if_splits)
  from own assms(2) have ne: "ao_user_id row \<noteq> u'" by auto
  show ?thesis
  proof (rule view_unchanged)
    show "select_active_opportunity (Some u') d' = select_active_opportunity (Some u') d"
      using ne by (simp add: select_active_opportunity_def d' policy_user_Some)
  qed (simp_all add: d' select_opportunities_def policy_opportunity_def)
qed


lemma confined_upsert_active_opportunity:
  assumes "upsert_active_opportunity uid now v d = Inr d'" and "uid \<noteq> Some u'"
  shows "view (Some u') d' = view (Some u') d"
proof -
  from assms(1) obtain u where u: "uid = Some u"
    and cases: "(\<exists>f n. d' = d\<lparr>active_opportunity := map f (active_opportunity d),
                                active_opportunity_id_seq := n\<rparr>
                    \<and> (\<forall>r. ao_user_id (f r) = ao_user_id r)
                    \<and> (\<forall>r. ao_user_id r \<noteq> u \<longrightarrow> f r = r))
              \<or> (\<exists>row n. d' = d\<lparr>active_opportunity := active_opportunity d @ [row],
                                active_opportunity_id_seq := n\<rparr> \<and> ao_user_id row = u)"
  proof -
    let ?user_id = "col_value None (aov_user_id v)"
    let ?f = "\<lambda>r. if ao_user_id r = the ?user_id
                   then r\<lparr>ao_opportunity_id := col_value None (aov_opportunity_id v),
                          ao_updated_at := col_value (Some now) (aov_updated_at v)\<rparr>
                   else r"
    from assms(1) have pu: "policy_user uid ?user_id"
      by (simp add: upsert_active_opportunity_def Let_def split: if_splits)
    then obtain u where u: "uid = Some u" "?user_id = Some u"
      by (auto simp: policy_user_def)
    from assms(1) have
      "d' = d\<lparr>active_opportunity := map ?f (active_opportunity d),
              active_opportunity_id_seq := active_opportunity_id_seq d + 1\<rparr>
       \<or> d' = d\<lparr>active_opportunity := active_opportunity d @
                [\<lparr> ao_id = active_opportunity_id_seq d, ao_user_id = the ?user_id,
                   ao_opportunity_id = col_value None (aov_opportunity_id v),
                   ao_updated_at = col_value (Some now) (aov_updated_at v) \<rparr>],
              active_opportunity_id_seq := active_opportunity_id_seq d + 1\<rparr>"
      by (simp add: upsert_active_opportunity_def Let_def split: if_splits)
    then show ?thesis
    proof
      assume m: "d' = d\<lparr>active_opportunity := map ?f (active_opportunity d),
              active_opportunity_id_seq := active_opportunity_id_seq d + 1\<rparr>"
      have "(\<forall>r. ao_user_id (?f r) = ao_user_id r) \<and> (\<forall>r. ao_user_id r \<noteq> u \<longrightarrow> ?f r = r)"
        by (simp add: u)
      with m u(1) that show ?thesis by blast
    next
      assume a: "d' = d\<lparr>active_opportunity := active_opportunity d @
                [\<lparr> ao_id = active_opportunity_id_seq d, ao_user_id = the ?user_id,
                   ao_opportunity_id = col_value None (aov_opportunity_id v),
                   ao_updated_at = col_value (Some now) (aov_updated_at v) \<rparr>],
              active_opportunity_id_seq := active_opportunity_id_seq d + 1\<rparr>"
      have "ao_user_id \<lparr> ao_id = active_opportunity_id_seq d, ao_user_id = the ?user_id,
                   ao_opportunity_id = col_value None (aov_opportunity_id v),
                   ao_updated_at = col_value (Some now) (aov_updated_at v) \<rparr> = u"
        by (simp add: u)
      with a u(1) that show ?thesis by blast
    qed
  qed
  from u assms(2) have ne: "u \<noteq> u'" by simp
  from cases show ?thesis
  proof (elim disjE exE conjE)
    fix f n
    assume d': "d' = d\<lparr>active_opportunity := map f (active_opportunity d),
                                active_opportunity_id_seq := n\<rparr>"
      and fu: "\<forall>r. ao_user_id (f r) = ao_user_id r" and fo: "\<forall>r. ao_user_id r \<noteq> u \<longrightarrow> f r = r"
    have "filter (\<lambda>r. ao_user_id r = u') (map f (active_opportunity d))
        = filter (\<lambda>r. ao_user_id r = u') (active_opportunity d)"
      using fu fo ne by (intro filter_map_same) auto
    then have "select_active_opportunity (Some u') d' = select_active_opportunity (Some u') d"
      by (simp add: select_active_opportunity_def policy_user_Some d')
    then show ?thesis
      by (rule view_unchanged [rotated 4])
        (simp_all add: d' select_opportunities_def policy_opportunity_def)
  next
    fix row n
    assume d': "d' = d\<lparr>active_opportunity := active_opportunity d @ [row],
                                active_opportunity_id_seq := n\<rparr>"
      and ru: "ao_user_id row = u"
    from ru ne have "select_active_opportunity (Some u') d' = select_active_opportunity (Some u') d"
      by (simp add: select_active_opportunity_def policy_user_Some d')
    then show ?thesis
      by (rule view_unchanged [rotated 4])
        (simp_all add: d' select_opportunities_def policy_opportunity_def)
  qed
qed

lemma confined_delete_opportunities:
  assumes "uid \<noteq> Some u'" and dist: "distinct (map o_id (opportunities d))"
    and ptr: "pointer_owned u' d"
  shows "view (Some u') (delete_opportunities uid oid d) = view (Some u') d"
proof (cases "list_ex (\<lambda>r. o_id r = oid \<and> policy_user uid (Some (o_user_id r))) (opportunities d)")
  case False
  then show ?thesis by (simp add: delete_opportunities_def)
next
  case True
  let ?d = "delete_opportunities uid oid d"
  from True have o: "opportunities ?d
      = filter (\<lambda>r. \<not> (o_id r = oid \<and> policy_user uid (Some (o_user_id r)))) (opportunities d)"
    and p: "phase_progress ?d = filter (\<lambda>r. pp_opportunity_id r \<noteq> Some oid) (phase_progress d)"
    and a: "artifacts ?d = filter (\<lambda>r. a_opportunity_id r \<noteq> Some oid) (artifacts d)"
    and ao: "active_opportunity ?d
      = map (\<lambda>r. if ao_opportunity_id r = Some oid then r\<lparr>ao_opportunity_id := None\<rparr> else r)
          (active_opportunity d)"
    by (simp_all add: delete_opportunities_def)
  from True obtain r where "r \<in> set (opportunities d)" "o_id r = oid" "policy_user uid (Some (o_user_id r))"
    by (auto simp: list_ex_iff)
  then have "policy_opportunity d uid (Some oid)"
    by (auto simp: policy_opportunity_iff policy_user_def)
  from policy_exclusive [OF dist this assms(1)]
  have notmine: "\<not> policy_opportunity d (Some u') (Some oid)" .
  have keep: "\<And>r. o_user_id r = u' \<Longrightarrow> \<not> (o_id r = oid \<and> policy_user uid (Some (o_user_id r)))"
    using assms(1) by (simp add: policy_user_other)
  show ?thesis
  proof (rule view_unchanged)
    show so: "select_opportunities (Some u') ?d = select_opportunities (Some u') d"
      unfolding select_opportunities_def o policy_user_Some
      by (rule filter_filter_out) (use assms(1) in \<open>simp add: policy_user_other\<close>)
    show "\<And>x. policy_opportunity ?d (Some u') x = policy_opportunity d (Some u') x"
      using keep by (auto simp: policy_opportunity_iff o)
    show "filter (\<lambda>r. policy_opportunity d (Some u') (pp_opportunity_id r)) (phase_progress ?d)
       = filter (\<lambda>r. policy_opportunity d (Some u') (pp_opportunity_id r)) (phase_progress d)"
      unfolding p using notmine by (intro filter_filter_out) auto
    show "filter (\<lambda>r. policy_opportunity d (Some u') (a_opportunity_id r)) (artifacts ?d)
       = filter (\<lambda>r. policy_opportunity d (Some u') (a_opportunity_id r)) (artifacts d)"
      unfolding a using notmine by (intro filter_filter_out) auto
    have "filter (\<lambda>r. ao_user_id r = u')
            (map (\<lambda>r. if ao_opportunity_id r = Some oid then r\<lparr>ao_opportunity_id := None\<rparr> else r)
               (active_opportunity d))
        = filter (\<lambda>r. ao_user_id r = u') (active_opportunity d)"
    proof (rule filter_map_same)
      fix x assume "x \<in> set (active_opportunity d)"
      show "(ao_user_id (if ao_opportunity_id x = Some oid then x\<lparr>ao_opportunity_id := None\<rparr> else x) = u')
          = (ao_user_id x = u')"
        by simp
    next
      fix x assume x: "x \<in> set (active_opportunity d)" and xu: "ao_user_id x = u'"
      from ptr x xu have "ao_opportunity_id x = None \<or> policy_opportunity d (Some u') (ao_opportunity_id x)"
        by (simp add: pointer_owned_def list_all_iff)
      with notmine have "ao_opportunity_id x \<noteq> Some oid" by auto
      then show "(if ao_opportunity_id x = Some oid then x\<lparr>ao_opportunity_id := None\<rparr> else x) = x"
        by simp
    qed
    then show "select_active_opportunity (Some u') ?d = select_active_opportunity (Some u') d"
      by (simp add: select_active_opportunity_def policy_user_Some ao)
  qed
qed

lemma confined_phase_progress_map:
  assumes d': "d' = d\<lparr>phase_progress := map f (phase_progress d)\<rparr>"
    and key: "\<And>r. pp_opportunity_id (f r) = pp_opportunity_id r"
    and hit: "\<And>r. f r \<noteq> r \<Longrightarrow> policy_opportunity d uid (pp_opportunity_id r)"
    and "uid \<noteq> Some u'" and dist: "distinct (map o_id (opportunities d))"
  shows "view (Some u') d' = view (Some u') d"
proof (rule view_unchanged)
  show "filter (\<lambda>r. policy_opportunity d (Some u') (pp_opportunity_id r)) (phase_progress d')
       = filter (\<lambda>r. policy_opportunity d (Some u') (pp_opportunity_id r)) (phase_progress d)"
    unfolding d'
  proof (simp, rule filter_map_same)
    fix x :: phase_progress_row
    show "policy_opportunity d (Some u') (pp_opportunity_id (f x))
        = policy_opportunity d (Some u') (pp_opportunity_id x)"
      by (simp add: key)
  next
    fix x :: phase_progress_row
    assume mine: "policy_opportunity d (Some u') (pp_opportunity_id x)"
    show "f x = x"
    proof (rule ccontr)
      assume "f x \<noteq> x"
      from policy_exclusive [OF dist hit [OF this] assms(4)] mine show False by simp
    qed
  qed
qed (simp_all add: d' select_active_opportunity_def select_opportunities_def policy_opportunity_def)

lemma confined_increment_artifacts_count:
  assumes "increment_artifacts_count uid oid phase_name d = Inr d'" and "uid \<noteq> Some u'"
    and "distinct (map o_id (opportunities d))"
  shows "view (Some u') d' = view (Some u') d"
proof -
  let ?f = "\<lambda>r. if pp_opportunity_id r = Some oid \<and> pp_phase r = phase_name
                     \<and> policy_opportunity d uid (pp_opportunity_id r)
                 then r\<lparr>pp_artifacts_count := map_option (\<lambda>n. n + 1) (pp_artifacts_count r)\<rparr>
                 else r"
  from assms(1) have d': "d' = d\<lparr>phase_progress := map ?f (phase_progress d)\<rparr>"
    by (simp add: increment_artifacts_count_def Let_def split: if_splits)
  show ?thesis
  proof (rule confined_phase_progress_map [OF d' _ _ assms(2,3)])
    fix r :: phase_progress_row
    show "pp_opportunity_id (?f r) = pp_opportunity_id r" by simp
  next
    fix r :: phase_progress_row
    assume "?f r \<noteq> r"
    then show "policy_opportunity d uid (pp_opportunity_id r)" by (simp split: if_splits)
  qed
qed

lemma confined_update_phase_status:
  assumes "uid \<noteq> Some u'" and "distinct (map o_id (opportunities d))"
  shows "view (Some u') (update_phase_status uid oid phase old new start d) = view (Some u') d"
proof -
  let ?f = "\<lambda>r. if pp_opportunity_id r = Some oid \<and> pp_phase r = phase
                     \<and> pp_status r = old
                     \<and> policy_opportunity d uid (pp_opportunity_id r)
                  then r\<lparr>pp_status := new,
                         pp_start_date := (case start of None \<Rightarrow> pp_start_date r | Some t \<Rightarrow> Some t)\<rparr>
                  else r"
  have d': "update_phase_status uid oid phase old new start d
      = d\<lparr>phase_progress := map ?f (phase_progress d)\<rparr>"
    by (simp add: update_phase_status_def)
  show ?thesis
  proof (rule confined_phase_progress_map [OF d' _ _ assms])
    fix r :: phase_progress_row
    show "pp_opportunity_id (?f r) = pp_opportunity_id r" by simp
  next
    fix r :: phase_progress_row
    assume "?f r \<noteq> r"
    then show "policy_opportunity d uid (pp_opportunity_id r)" by (simp split: if_splits)
  qed
qed

lemma list_ex_owner_map:
  "(\<And>r. o_id (f r) = o_id r) \<Longrightarrow> (\<And>r. o_user_id (f r) = o_user_id r)
     \<Longrightarrow> list_ex (\<lambda>r. Some (o_id r) = x \<and> Some (o_user_id r) = uid) (map f xs)
         = list_ex (\<lambda>r. Some (o_id r) = x \<and> Some (o_user_id r) = uid) xs"
  by (induction xs) simp_all

lemma confined_update_current_phase:
  assumes "uid \<noteq> Some u'"
  shows "view (Some u') (update_current_phase uid oid phase d) = view (Some u') d"
proof -
  let ?d = "update_current_phase uid oid phase d"
  let ?f = "\<lambda>r. if o_id r = oid \<and> policy_user uid (Some (o_user_id r))
                  then r\<lparr>o_current_phase := phase\<rparr> else r"
  have o: "opportunities ?d = map ?f (opportunities d)"
    and rest: "phase_progress ?d = phase_progress d" "artifacts ?d = artifacts d"
      "active_opportunity ?d = active_opportunity d"
    by (simp_all add: update_current_phase_def)
  have fid: "\<And>r. o_user_id r = u' \<Longrightarrow> ?f r = r"
    using assms by (simp add: policy_user_other)
  show ?thesis
  proof (rule view_unchanged)
    show "select_opportunities (Some u') ?d = select_opportunities (Some u') d"
      unfolding select_opportunities_def o policy_user_Some
      by (rule filter_map_same) (use assms in \<open>simp_all add: policy_user_other\<close>)
    show "\<And>x. policy_opportunity ?d (Some u') x = policy_opportunity d (Some u') x"
      unfolding policy_opportunity_def o by (rule list_ex_owner_map) simp_all
  qed (simp_all add: rest select_active_opportunity_def)
qed

lemma exec_confined:
  assumes "exec uid now s d = Inr d'" and "uid \<noteq> Some u'"
    and "distinct (map o_id (opportunities d))" and "pointer_owned u' d"
  shows "view (Some u') d' = view (Some u') d"
  using assms
  by (cases s)
    (auto simp: confined_insert_opportunities confined_insert_phase_progress
      confined_insert_artifacts confined_insert_active_opportunity
      confined_upsert_active_opportunity confined_delete_opportunities
      confined_increment_artifacts_count confined_update_phase_status
      confined_update_current_phase)

lemma view_eqD:
  assumes "view uid d1 = view uid d2"
  shows "select_opportunities uid d1 = select_opportunities uid d2"
    and "select_phase_progress uid d1 = select_phase_progress uid d2"
    and "select_artifacts uid d1 = select_artifacts uid d2"
    and "select_active_opportunity uid d1 = select_active_opportunity uid d2"
  using assms by (simp_all add: view_def)

text \<open>The policy on an opportunity id, read off the opportunities the user can see.\<close>

lemma policy_opportunity_select:
  "policy_opportunity d uid x \<longleftrightarrow> uid \<noteq> None \<and> (\<exists>r\<in>set (select_opportunities uid d). Some (o_id r) = x)"
  by (auto simp: policy_opportunity_iff select_opportunities_def policy_user_def)

lemma filter_conj: "filter (\<lambda>r. P r \<and> Q r) xs = filter P (filter Q xs)"
  by (induction xs) simp_all

lemma filter_comm: "filter P (filter Q xs) = filter Q (filter P xs)"
  by (induction xs) simp_all

text \<open>What the owner sees after each statement, in terms of what the owner saw before.\<close>

lemma view_delete:
  "view uid (delete_opportunities uid oid d) =
     (filter (\<lambda>r. o_id r \<noteq> oid) (select_opportunities uid d),
      filter (\<lambda>r. pp_opportunity_id r \<noteq> Some oid) (select_phase_progress uid d),
      filter (\<lambda>r. a_opportunity_id r \<noteq> Some oid) (select_artifacts uid d),
      (if list_ex (\<lambda>r. o_id r = oid) (select_opportunities uid d)
       then map (\<lambda>r. if ao_opportunity_id r = Some oid then r\<lparr>ao_opportunity_id := None\<rparr> else r)
              (select_active_opportunity uid d)
       else select_active_opportunity uid d))"
proof (cases "list_ex (\<lambda>r. o_id r = oid \<and> policy_user uid (Some (o_user_id r))) (opportunities d)")
  case False
  then have none: "\<forall>r\<in>set (select_opportunities uid d). o_id r \<noteq> oid"
    by (auto simp: list_ex_iff select_opportunities_def)
  then have np: "\<not> policy_opportunity d uid (Some oid)"
    by (auto simp: policy_opportunity_select)
  have 1: "filter (\<lambda>r. o_id r \<noteq> oid) (select_opportunities uid d) = select_opportunities uid d"
    using none by (simp add: filter_id_conv)
  have 2: "filter (\<lambda>r. pp_opportunity_id r \<noteq> Some oid) (select_phase_progress uid d)
      = select_phase_progress uid d"
    unfolding select_phase_progress_def filter_filter
    by (rule filter_cong) (use np in auto)
  have 3: "filter (\<lambda>r. a_opportunity_id r \<noteq> Some oid) (select_artifacts uid d)
      = select_artifacts uid d"
    unfolding select_artifacts_def filter_filter
    by (rule filter_cong) (use np in auto)
  have 4: "\<not> list_ex (\<lambda>r. o_id r = oid) (select_opportunities uid d)"
    using none by (simp add: list_ex_iff)
  from False have "delete_opportunities uid oid d = d" by (simp add: delete_opportunities_def)
  then show ?thesis by (simp add: view_def 1 2 3 4)
next
  case True
  let ?d = "delete_opportunities uid oid d"
  from True have o: "opportunities ?d
      = filter (\<lambda>r. \<not> (o_id r = oid \<and> policy_user uid (Some (o_user_id r)))) (opportunities d)"
    and p: "phase_progress ?d = filter (\<lambda>r. pp_opportunity_id r \<noteq> Some oid) (phase_progress d)"
    and a: "artifacts ?d = filter (\<lambda>r. a_opportunity_id r \<noteq> Some oid) (artifacts d)"
    and ao: "active_opportunity ?d
      = map (\<lambda>r. if ao_opportunity_id r = Some oid then r\<lparr>ao_opportunity_id := None\<rparr> else r)
          (active_opportunity d)"
    by (simp_all add: delete_opportunities_def)
  have so: "select_opportunities uid ?d = filter (\<lambda>r. o_id r \<noteq> oid) (select_opportunities uid d)"
    unfolding select_opportunities_def o filter_filter
    by (rule filter_cong) auto
  have pol: "\<And>x. policy_opportunity ?d uid x \<longleftrightarrow> policy_opportunity d uid x \<and> x \<noteq> Some oid"
    by (auto simp: policy_opportunity_iff o policy_user_def)
  have sp: "select_phase_progress uid ?d
      = filter (\<lambda>r. pp_opportunity_id r \<noteq> Some oid) (select_phase_progress uid d)"
    unfolding select_phase_progress_def p filter_filter pol
    by (rule filter_cong) auto
  have sa: "select_artifacts uid ?d
      = filter (\<lambda>r. a_opportunity_id r \<noteq> Some oid) (select_artifacts uid d)"
    unfolding select_artifacts_def a filter_filter pol
    by (rule filter_cong) auto
  have sao: "select_active_opportunity uid ?d
      = map (\<lambda>r. if ao_opportunity_id r = Some oid then r\<lparr>ao_opportunity_id := None\<rparr> else r)
          (select_active_opportunity uid d)"
    unfolding select_active_opportunity_def ao filter_map
    by (rule arg_cong [where f = "map _"], rule filter_cong) auto
  from True have ex: "list_ex (\<lambda>r. o_id r = oid) (select_opportunities uid d)"
    by (auto simp: list_ex_iff select_opportunities_def)
  show ?thesis by (simp add: view_def so sp sa sao ex)
qed


lemma filter_map_if:
  assumes "\<And>r. Q (g r) = Q r"
  shows "filter Q (map (\<lambda>r. if K r \<and> Q r then g r else r) xs)
       = map (\<lambda>r. if K r then g r else r) (filter Q xs)"
  by (induction xs) (simp_all add: assms)

lemma view_phase_progress_map:
  fixes g :: "phase_progress_row \<Rightarrow> phase_progress_row"
  assumes d': "d' = d\<lparr>phase_progress :=
                 map (\<lambda>r. if K r \<and> policy_opportunity d uid (pp_opportunity_id r) then g r else r)
                   (phase_progress d)\<rparr>"
    and key: "\<And>r. pp_opportunity_id (g r) = pp_opportunity_id r"
  shows "view uid d' =
     (select_opportunities uid d, map (\<lambda>r. if K r then g r else r) (select_phase_progress uid d),
      select_artifacts uid d, select_active_opportunity uid d)"
proof -
  have pol: "\<And>x. policy_opportunity d' uid x = policy_opportunity d uid x"
    by (simp add: d' policy_opportunity_def)
  have "filter (\<lambda>r. policy_opportunity d uid (pp_opportunity_id r))
          (map (\<lambda>r. if K r \<and> policy_opportunity d uid (pp_opportunity_id r) then g r else r)
             (phase_progress d))
      = map (\<lambda>r. if K r then g r else r)
          (filter (\<lambda>r. policy_opportunity d uid (pp_opportunity_id r)) (phase_progress d))"
    by (rule filter_map_if) (simp add: key)
  then have "select_phase_progress uid d'
      = map (\<lambda>r. if K r then g r else r) (select_phase_progress uid d)"
    by (simp add: select_phase_progress_def pol) (simp add: d')
  moreover have "select_opportunities uid d' = select_opportunities uid d"
    "select_artifacts uid d' = select_artifacts uid d"
    "select_active_opportunity uid d' = select_active_opportunity uid d"
    by (simp_all add: select_opportunities_def select_artifacts_def select_active_opportunity_def pol)
      (simp_all add: d')
  ultimately show ?thesis by (simp add: view_def)
qed

lemma list_ex_filter: "list_ex P (filter Q xs) = list_ex (\<lambda>r. Q r \<and> P r) xs"
  by (induction xs) auto

lemma view_increment:
  "map_sum id (view uid) (increment_artifacts_count uid oid p d) =
     (if list_ex (\<lambda>r. pp_opportunity_id r = Some oid \<and> pp_phase r = p
                      \<and> pp_artifacts_count r = Some 2147483647) (select_phase_progress uid d)
      then Inl numeric_value_out_of_range
      else Inr (select_opportunities uid d,
                map (\<lambda>r. if pp_opportunity_id r = Some oid \<and> pp_phase r = p
                         then r\<lparr>pp_artifacts_count := map_option (\<lambda>n. n + 1) (pp_artifacts_count r)\<rparr>
                         else r) (select_phase_progress uid d),
                select_artifacts uid d, select_active_opportunity uid d))"
proof -
  let ?K = "\<lambda>r. pp_opportunity_id r = Some oid \<and> pp_phase r = p"
  let ?g = "\<lambda>r::phase_progress_row.
              r\<lparr>pp_artifacts_count := map_option (\<lambda>n. n + 1) (pp_artifacts_count r)\<rparr>"
  let ?over = "list_ex (\<lambda>r. (pp_opportunity_id r = Some oid \<and> pp_phase r = p
                      \<and> policy_opportunity d uid (pp_opportunity_id r))
                     \<and> pp_artifacts_count r = Some 2147483647) (phase_progress d)"
  have over: "?over = list_ex (\<lambda>r. pp_opportunity_id r = Some oid \<and> pp_phase r = p
                      \<and> pp_artifacts_count r = Some 2147483647) (select_phase_progress uid d)"
    unfolding select_phase_progress_def list_ex_filter
    by (rule arg_cong [where f = "\<lambda>P. list_ex P _"]) auto
  show ?thesis
  proof (cases ?over)
    case True
    then have "increment_artifacts_count uid oid p d = Inl numeric_value_out_of_range"
      by (simp add: increment_artifacts_count_def Let_def)
    with True over show ?thesis by simp
  next
    case False
    let ?d' = "d\<lparr>phase_progress :=
                 map (\<lambda>r. if ?K r \<and> policy_opportunity d uid (pp_opportunity_id r) then ?g r else r)
                   (phase_progress d)\<rparr>"
    from False have r: "increment_artifacts_count uid oid p d = Inr ?d'"
      by (simp add: increment_artifacts_count_def Let_def conj_assoc)
    have "view uid ?d' =
       (select_opportunities uid d, map (\<lambda>r. if ?K r then ?g r else r) (select_phase_progress uid d),
        select_artifacts uid d, select_active_opportunity uid d)"
      by (rule view_phase_progress_map [OF refl]) simp
    with False over r show ?thesis by simp
  qed
qed

lemma view_update_phase_status:
  "view uid (update_phase_status uid oid p old new start d) =
     (select_opportunities uid d,
      map (\<lambda>r. if pp_opportunity_id r = Some oid \<and> pp_phase r = p \<and> pp_status r = old
               then r\<lparr>pp_status := new,
                      pp_start_date := (case start of None \<Rightarrow> pp_start_date r | Some t \<Rightarrow> Some t)\<rparr>
               else r) (select_phase_progress uid d),
      select_artifacts uid d, select_active_opportunity uid d)"
proof -
  let ?K = "\<lambda>r. pp_opportunity_id r = Some oid \<and> pp_phase r = p \<and> pp_status r = old"
  let ?g = "\<lambda>r::phase_progress_row. r\<lparr>pp_status := new,
                      pp_start_date := (case start of None \<Rightarrow> pp_start_date r | Some t \<Rightarrow> Some t)\<rparr>"
  have e: "update_phase_status uid oid p old new start d
      = d\<lparr>phase_progress :=
                 map (\<lambda>r. if ?K r \<and> policy_opportunity d uid (pp_opportunity_id r) then ?g r else r)
                   (phase_progress d)\<rparr>"
    by (simp add: update_phase_status_def conj_assoc)
  show ?thesis unfolding e by (rule view_phase_progress_map [OF refl]) simp
qed

lemma view_update_current_phase:
  "view uid (update_current_phase uid oid phase d) =
     (map (\<lambda>r. if o_id r = oid then r\<lparr>o_current_phase := phase\<rparr> else r) (select_opportunities uid d),
      select_phase_progress uid d, select_artifacts uid d, select_active_opportunity uid d)"
proof -
  let ?d = "update_current_phase uid oid phase d"
  let ?Q = "\<lambda>r. policy_user uid (Some (o_user_id r))"
  have o: "opportunities ?d
      = map (\<lambda>r. if o_id r = oid \<and> ?Q r then r\<lparr>o_current_phase := phase\<rparr> else r) (opportunities d)"
    and rest: "phase_progress ?d = phase_progress d" "artifacts ?d = artifacts d"
      "active_opportunity ?d = active_opportunity d"
    by (simp_all add: update_current_phase_def)
  have so: "select_opportunities uid ?d
      = map (\<lambda>r. if o_id r = oid then r\<lparr>o_current_phase := phase\<rparr> else r) (select_opportunities uid d)"
    unfolding select_opportunities_def o by (rule filter_map_if) simp
  have pol: "\<And>x. policy_opportunity ?d uid x = policy_opportunity d uid x"
    unfolding policy_opportunity_def o by (rule list_ex_owner_map) simp_all
  show ?thesis
    by (simp add: view_def so select_phase_progress_def select_artifacts_def
        select_active_opportunity_def pol rest)
qed

lemma exec_two_runs:
  assumes "\<not> inserts s" and v: "view uid d1 = view uid d2"
  shows "map_sum id (view uid) (exec uid now s d1) = map_sum id (view uid) (exec uid now s d2)"
  using assms(1)
  by (cases s)
    (simp_all add: view_delete view_increment view_update_phase_status view_update_current_phase
      view_eqD [OF v])

text \<open>
  Claim C8, as the code has it. The row-level-security policies scope every read to the
  calling owner: a read returns opportunities of the caller, artifacts and phase-progress
  rows of the caller's opportunities, and the caller's pointer, and nothing else, so what
  an owner reads is the same in two databases that differ only in other owners' data.
  No statement of one owner changes what another owner reads, as long as opportunity ids
  are unique and the other owner's pointer refers to an opportunity of their own. And for
  every statement that is not an insert, two runs on databases that the caller reads
  alike give the same outcome and leave the caller reading alike. An insert is different:
  its success depends on keys that other owners use.
\<close>

theorem C8_owners_are_separated:
  "(\<forall>r\<in>set (select_opportunities uid d). Some (o_user_id r) = uid)
   \<and> (\<forall>r\<in>set (select_phase_progress uid d). policy_opportunity d uid (pp_opportunity_id r))
   \<and> (\<forall>r\<in>set (select_artifacts uid d). policy_opportunity d uid (a_opportunity_id r))
   \<and> (\<forall>r\<in>set (select_active_opportunity uid d). Some (ao_user_id r) = uid)
   \<and> (uid \<noteq> Some u' \<and> distinct (map o_id (opportunities d)) \<and> pointer_owned u' d
        \<and> exec uid now s d = Inr d'
      \<longrightarrow> view (Some u') d' = view (Some u') d)
   \<and> (\<not> inserts s \<and> view uid d = view uid d2
      \<longrightarrow> map_sum id (view uid) (exec uid now s d) = map_sum id (view uid) (exec uid now s d2))"
proof (intro conjI impI)
  show "\<forall>r\<in>set (select_opportunities uid d). Some (o_user_id r) = uid"
    by (auto simp: select_opportunities_def policy_user_def)
  show "\<forall>r\<in>set (select_phase_progress uid d). policy_opportunity d uid (pp_opportunity_id r)"
    by (simp add: select_phase_progress_def)
  show "\<forall>r\<in>set (select_artifacts uid d). policy_opportunity d uid (a_opportunity_id r)"
    by (simp add: select_artifacts_def)
  show "\<forall>r\<in>set (select_active_opportunity uid d). Some (ao_user_id r) = uid"
    by (auto simp: select_active_opportunity_def policy_user_def)
next
  assume "uid \<noteq> Some u' \<and> distinct (map o_id (opportunities d)) \<and> pointer_owned u' d
        \<and> exec uid now s d = Inr d'"
  then show "view (Some u') d' = view (Some u') d"
    using exec_confined by blast
next
  assume "\<not> inserts s \<and> view uid d = view uid d2"
  then show "map_sum id (view uid) (exec uid now s d) = map_sum id (view uid) (exec uid now s d2)"
    using exec_two_runs by blast
qed

theorem C8_owners_are_separated_witness:
  "view (Some 2) (delete_opportunities (Some 1) (js ''o1'') scenario_db) = view (Some 2) scenario_db
   \<and> map o_id (select_opportunities (Some 1) (delete_opportunities (Some 1) (js ''o1'') scenario_db)) = []"
proof -
  have h: "Some 1 \<noteq> Some (2::nat) \<and> distinct (map o_id (opportunities scenario_db))
      \<and> pointer_owned 2 scenario_db
      \<and> exec (Some 1) 103 (DELETE_opportunities (js ''o1'')) scenario_db
          = Inr (delete_opportunities (Some 1) (js ''o1'') scenario_db)"
    by (simp add: scenario_db_def pointer_owned_def policy_opportunity_def)
  have "map o_id (select_opportunities (Some 1) (delete_opportunities (Some 1) (js ''o1'') scenario_db)) = []"
    by (simp add: scenario_db_def delete_opportunities_def select_opportunities_def policy_user_def)
  with C8_owners_are_separated
    [where uid = "Some 1" and u' = 2 and d = scenario_db and now = 103
       and s = "DELETE_opportunities (js ''o1'')"
       and d' = "delete_opportunities (Some 1) (js ''o1'') scenario_db"] h
  show ?thesis by blast
qed

text \<open>
  The claim as the specification words it fails for an insert. User 1 reads the same in
  the database and in the database without the data of user 2; storing an opportunity
  under the id \<^verbatim>\<open>o2\<close> fails in the first, where user 2 has that id, and succeeds in the
  second.
\<close>

theorem C8_insert_sees_foreign_key_counterexample:
  "view (Some 1) (delete_opportunities (Some 2) (js ''o2'') scenario_db) = view (Some 1) scenario_db
   \<and> insert_opportunities (Some 1) 103 scenario_opportunity scenario_db = Inl unique_violation
   \<and> \<not> isl (insert_opportunities (Some 1) 103 scenario_opportunity
              (delete_opportunities (Some 2) (js ''o2'') scenario_db))"
  by (simp add: scenario_db_def scenario_opportunity_def scenario_phase_def view_def
      delete_opportunities_def insert_opportunities_def select_opportunities_def
      select_phase_progress_def select_artifacts_def select_active_opportunity_def
      policy_user_def policy_opportunity_def Let_def)

text \<open>
  Why the pointer of the other owner must refer to an opportunity of their own: the policy
  of the pointer table checks the owner of the pointer, not of the opportunity, so user 2
  can point at \<^verbatim>\<open>o1\<close>, and user 1 deleting \<^verbatim>\<open>o1\<close> then empties that pointer.
\<close>

lemma pointer_to_foreign_opportunity:
  "map_sum id (\<lambda>d. map ao_opportunity_id (select_active_opportunity (Some 2) d))
     (upsert_active_opportunity (Some 2) 103
        \<lparr> aov_user_id = VALUE (Some 2), aov_opportunity_id = VALUE (Some (js ''o1'')),
          aov_updated_at = DEFAULT \<rparr> scenario_db)
   = Inr [Some (js ''o1'')]
   \<and> map_sum id (\<lambda>d. map ao_opportunity_id
                      (select_active_opportunity (Some 2)
                         (delete_opportunities (Some 1) (js ''o1'') d)))
     (upsert_active_opportunity (Some 2) 103
        \<lparr> aov_user_id = VALUE (Some 2), aov_opportunity_id = VALUE (Some (js ''o1'')),
          aov_updated_at = DEFAULT \<rparr> scenario_db)
   = Inr [None]"
  by (simp add: scenario_db_def upsert_active_opportunity_def delete_opportunities_def
      select_active_opportunity_def policy_user_def Let_def)

subsection \<open>The constraints are maintained\<close>

text \<open>
  The theorems above assume of a database what its constraints say: unique keys, valid
  references. Every statement keeps both, and the empty database has them.
\<close>

lemma distinct_map_filter_key:
  "distinct (map k (filter P xs)) \<Longrightarrow> distinct (map k (filter P (filter Q xs)))"
  by (induction xs) auto

lemma map_key_filter_map:
  assumes "\<And>r. P (f r) = P r" and "\<And>r. k (f r) = k r"
  shows "map k (filter P (map f xs)) = map k (filter P xs)"
  by (induction xs) (simp_all add: assms)

lemma map_key_map:
  assumes "\<And>r. k (f r) = k r"
  shows "map k (map f xs) = map k xs"
  by (induction xs) (simp_all add: assms)

text \<open>The parts of \<open>unique_keys\<close>, one per table.\<close>

lemma unique_keysI:
  assumes "distinct (map o_id (opportunities d))" "distinct (map a_id (artifacts d))"
    "distinct (map ao_user_id (active_opportunity d))"
    "distinct (map (\<lambda>r. (pp_opportunity_id r, pp_phase r))
                    (filter (\<lambda>r. pp_opportunity_id r \<noteq> None) (phase_progress d)))"
  shows "unique_keys d"
  using assms by (simp add: unique_keys_def)

lemma unique_keysD:
  assumes "unique_keys d"
  shows "distinct (map o_id (opportunities d))" "distinct (map a_id (artifacts d))"
    "distinct (map ao_user_id (active_opportunity d))"
    "distinct (map (\<lambda>r. (pp_opportunity_id r, pp_phase r))
                    (filter (\<lambda>r. pp_opportunity_id r \<noteq> None) (phase_progress d)))"
  using assms by (simp_all add: unique_keys_def)

lemma unique_insert_opportunities:
  assumes "insert_opportunities uid now v d = Inr d'" and u: "unique_keys d"
  shows "unique_keys d'"
proof -
  from assms(1) obtain row where d': "d' = d\<lparr>opportunities := opportunities d @ [row]\<rparr>"
    and fresh: "o_id row \<notin> set (map o_id (opportunities d))"
    by (auto simp: insert_opportunities_def Let_def split: if_splits)
  from unique_keysD [OF u] fresh show ?thesis
    by (intro unique_keysI) (simp_all add: d')
qed

lemma unique_insert_phase_progress:
  assumes "insert_phase_progress uid v d = Inr d'" and u: "unique_keys d"
  shows "unique_keys d'"
proof -
  from assms(1) obtain row n where d': "d' = d\<lparr>phase_progress := phase_progress d @ [row], phase_progress_id_seq := n\<rparr>"
    and fresh: "pp_opportunity_id row \<noteq> None \<longrightarrow>
        \<not> list_ex (\<lambda>r. pp_opportunity_id r = pp_opportunity_id row \<and> pp_phase r = pp_phase row) (phase_progress d)"
    by (auto simp: insert_phase_progress_def Let_def split: if_splits)
  from fresh have "pp_opportunity_id row \<noteq> None \<longrightarrow>
      (pp_opportunity_id row, pp_phase row) \<notin> set (map (\<lambda>r. (pp_opportunity_id r, pp_phase r))
                    (filter (\<lambda>r. pp_opportunity_id r \<noteq> None) (phase_progress d)))"
    by (auto simp: list_ex_iff)
  with unique_keysD [OF u] show ?thesis
    by (intro unique_keysI) (auto simp: d')
qed

lemma unique_insert_artifacts:
  assumes "insert_artifacts uid now v d = Inr d'" and u: "unique_keys d"
  shows "unique_keys d'"
proof -
  from assms(1) obtain row where d': "d' = d\<lparr>artifacts := artifacts d @ [row]\<rparr>"
    and fresh: "a_id row \<notin> set (map a_id (artifacts d))"
    by (auto simp: insert_artifacts_def Let_def split: if_splits)
  from unique_keysD [OF u] fresh show ?thesis
    by (intro unique_keysI) (simp_all add: d')
qed

lemma unique_insert_active_opportunity:
  assumes "insert_active_opportunity uid now v d = Inr d'" and u: "unique_keys d"
  shows "unique_keys d'"
proof -
  from assms(1) obtain row n where d': "d' = d\<lparr>active_opportunity := active_opportunity d @ [row], active_opportunity_id_seq := n\<rparr>"
    and fresh: "ao_user_id row \<notin> set (map ao_user_id (active_opportunity d))"
    by (auto simp: insert_active_opportunity_def Let_def split: if_splits)
  from unique_keysD [OF u] fresh show ?thesis
    by (intro unique_keysI) (simp_all add: d')
qed

lemma upsert_cases:
  assumes "upsert_active_opportunity uid now v d = Inr d'"
  obtains (update) f n where "d' = d\<lparr>active_opportunity := map f (active_opportunity d),
                                active_opportunity_id_seq := n\<rparr>"
      "\<And>r. ao_user_id (f r) = ao_user_id r"
      "\<And>r. ao_opportunity_id (f r) = ao_opportunity_id r
           \<or> ao_opportunity_id (f r) = col_value None (aov_opportunity_id v)"
    | (insert) row n where "d' = d\<lparr>active_opportunity := active_opportunity d @ [row],
                                active_opportunity_id_seq := n\<rparr>"
      "ao_user_id row \<notin> set (map ao_user_id (active_opportunity d))"
      "ao_user_id row \<in> set (users d)"
      "ao_opportunity_id row = col_value None (aov_opportunity_id v)"
proof -
  let ?user_id = "col_value None (aov_user_id v)"
  let ?f = "\<lambda>r. if ao_user_id r = the ?user_id
                 then r\<lparr>ao_opportunity_id := col_value None (aov_opportunity_id v),
                        ao_updated_at := col_value (Some now) (aov_updated_at v)\<rparr>
                 else r"
  let ?row = "\<lparr> ao_id = active_opportunity_id_seq d, ao_user_id = the ?user_id,
                   ao_opportunity_id = col_value None (aov_opportunity_id v),
                   ao_updated_at = col_value (Some now) (aov_updated_at v) \<rparr>"
  from assms have
    "d' = d\<lparr>active_opportunity := map ?f (active_opportunity d),
              active_opportunity_id_seq := active_opportunity_id_seq d + 1\<rparr>
     \<or> (d' = d\<lparr>active_opportunity := active_opportunity d @ [?row],
              active_opportunity_id_seq := active_opportunity_id_seq d + 1\<rparr>
        \<and> the ?user_id \<notin> set (map ao_user_id (active_opportunity d))
        \<and> the ?user_id \<in> set (users d))"
    by (simp add: upsert_active_opportunity_def Let_def split: if_splits)
  then show thesis
  proof (elim disjE conjE)
    assume m: "d' = d\<lparr>active_opportunity := map ?f (active_opportunity d),
              active_opportunity_id_seq := active_opportunity_id_seq d + 1\<rparr>"
    show thesis by (rule update [OF m]) simp_all
  next
    assume a: "d' = d\<lparr>active_opportunity := active_opportunity d @ [?row],
              active_opportunity_id_seq := active_opportunity_id_seq d + 1\<rparr>"
      and "the ?user_id \<notin> set (map ao_user_id (active_opportunity d))"
      and "the ?user_id \<in> set (users d)"
    then show thesis by (intro insert [OF a]) simp_all
  qed
qed

lemma unique_upsert_active_opportunity:
  assumes "upsert_active_opportunity uid now v d = Inr d'" and u: "unique_keys d"
  shows "unique_keys d'"
  using assms(1)
proof (cases rule: upsert_cases)
  case (update f n)
  have "map ao_user_id (active_opportunity d') = map ao_user_id (active_opportunity d)"
    by (simp add: update(1) comp_def update(2))
  with unique_keysD [OF u] show ?thesis
    by (intro unique_keysI) (simp_all add: update(1) del: map_map)
next
  case (insert row n)
  from unique_keysD [OF u] insert(2) show ?thesis
    by (intro unique_keysI) (simp_all add: insert(1))
qed

lemma unique_delete_opportunities:
  assumes u: "unique_keys d"
  shows "unique_keys (delete_opportunities uid oid d)"
proof (cases "list_ex (\<lambda>r. o_id r = oid \<and> policy_user uid (Some (o_user_id r))) (opportunities d)")
  case False
  with u show ?thesis by (simp add: delete_opportunities_def)
next
  case True
  let ?d = "delete_opportunities uid oid d"
  from True have o: "opportunities ?d
      = filter (\<lambda>r. \<not> (o_id r = oid \<and> policy_user uid (Some (o_user_id r)))) (opportunities d)"
    and p: "phase_progress ?d = filter (\<lambda>r. pp_opportunity_id r \<noteq> Some oid) (phase_progress d)"
    and a: "artifacts ?d = filter (\<lambda>r. a_opportunity_id r \<noteq> Some oid) (artifacts d)"
    and ao: "active_opportunity ?d
      = map (\<lambda>r. if ao_opportunity_id r = Some oid then r\<lparr>ao_opportunity_id := None\<rparr> else r)
          (active_opportunity d)"
    by (simp_all add: delete_opportunities_def)
  note k = unique_keysD [OF u]
  show ?thesis
  proof (rule unique_keysI)
    show "distinct (map o_id (opportunities ?d))" unfolding o using k(1) by (rule distinct_map_filter)
    show "distinct (map a_id (artifacts ?d))" unfolding a using k(2) by (rule distinct_map_filter)
    have "map ao_user_id (active_opportunity ?d) = map ao_user_id (active_opportunity d)"
      unfolding ao by (rule map_key_map) simp
    with k(3) show "distinct (map ao_user_id (active_opportunity ?d))" by simp
    show "distinct (map (\<lambda>r. (pp_opportunity_id r, pp_phase r))
                    (filter (\<lambda>r. pp_opportunity_id r \<noteq> None) (phase_progress ?d)))"
      unfolding p using k(4) by (rule distinct_map_filter_key)
  qed
qed

lemma unique_phase_progress_map:
  fixes f :: "phase_progress_row \<Rightarrow> phase_progress_row"
  assumes u: "unique_keys d" and d': "d' = d\<lparr>phase_progress := map f (phase_progress d)\<rparr>"
    and key: "\<And>r. pp_opportunity_id (f r) = pp_opportunity_id r" "\<And>r. pp_phase (f r) = pp_phase r"
  shows "unique_keys d'"
proof -
  have "map (\<lambda>r. (pp_opportunity_id r, pp_phase r))
          (filter (\<lambda>r. pp_opportunity_id r \<noteq> None) (map f (phase_progress d)))
      = map (\<lambda>r. (pp_opportunity_id r, pp_phase r))
          (filter (\<lambda>r. pp_opportunity_id r \<noteq> None) (phase_progress d))"
    by (rule map_key_filter_map) (simp_all add: key)
  with unique_keysD [OF u] show ?thesis
    by (intro unique_keysI) (simp_all add: d')
qed

lemma unique_increment_artifacts_count:
  assumes "increment_artifacts_count uid oid p d = Inr d'" and u: "unique_keys d"
  shows "unique_keys d'"
proof -
  let ?f = "\<lambda>r. if pp_opportunity_id r = Some oid \<and> pp_phase r = p
                     \<and> policy_opportunity d uid (pp_opportunity_id r)
                 then r\<lparr>pp_artifacts_count := map_option (\<lambda>n. n + 1) (pp_artifacts_count r)\<rparr>
                 else r"
  from assms(1) have d': "d' = d\<lparr>phase_progress := map ?f (phase_progress d)\<rparr>"
    by (simp add: increment_artifacts_count_def Let_def split: if_splits)
  show ?thesis by (rule unique_phase_progress_map [OF u d']) simp_all
qed

lemma unique_update_phase_status:
  assumes u: "unique_keys d"
  shows "unique_keys (update_phase_status uid oid p old new start d)"
proof -
  let ?f = "\<lambda>r. if pp_opportunity_id r = Some oid \<and> pp_phase r = p
                     \<and> pp_status r = old
                     \<and> policy_opportunity d uid (pp_opportunity_id r)
                  then r\<lparr>pp_status := new,
                         pp_start_date := (case start of None \<Rightarrow> pp_start_date r | Some t \<Rightarrow> Some t)\<rparr>
                  else r"
  have d': "update_phase_status uid oid p old new start d
      = d\<lparr>phase_progress := map ?f (phase_progress d)\<rparr>"
    by (simp add: update_phase_status_def)
  show ?thesis by (rule unique_phase_progress_map [OF u d']) simp_all
qed

lemma unique_update_current_phase:
  assumes u: "unique_keys d"
  shows "unique_keys (update_current_phase uid oid phase d)"
proof -
  let ?d = "update_current_phase uid oid phase d"
  have oo: "opportunities ?d
      = map (\<lambda>r. if o_id r = oid \<and> policy_user uid (Some (o_user_id r))
                 then r\<lparr>o_current_phase := phase\<rparr> else r) (opportunities d)"
    by (simp add: update_current_phase_def)
  have o: "map o_id (opportunities ?d) = map o_id (opportunities d)"
    unfolding oo by (rule map_key_map) simp
  have rest: "artifacts ?d = artifacts d" "active_opportunity ?d = active_opportunity d"
    "phase_progress ?d = phase_progress d"
    by (simp_all add: update_current_phase_def)
  from unique_keysD [OF u] show ?thesis
    by (intro unique_keysI) (simp_all only: o rest)
qed

lemma exec_unique_keys:
  assumes "exec uid now s d = Inr d'" and "unique_keys d"
  shows "unique_keys d'"
  using assms
  by (cases s)
    (auto simp: unique_insert_opportunities unique_insert_phase_progress unique_insert_artifacts
      unique_insert_active_opportunity unique_upsert_active_opportunity
      unique_delete_opportunities unique_increment_artifacts_count
      unique_update_phase_status unique_update_current_phase)

lemma foreign_keys_iff:
  "foreign_keys d \<longleftrightarrow>
     (\<forall>r\<in>set (opportunities d). o_user_id r \<in> set (users d))
     \<and> (\<forall>r\<in>set (phase_progress d). \<forall>x. pp_opportunity_id r = Some x
            \<longrightarrow> x \<in> o_id ` set (opportunities d))
     \<and> (\<forall>r\<in>set (artifacts d). \<forall>x. a_opportunity_id r = Some x
            \<longrightarrow> x \<in> o_id ` set (opportunities d))
     \<and> (\<forall>r\<in>set (active_opportunity d). ao_user_id r \<in> set (users d)
            \<and> (\<forall>x. ao_opportunity_id r = Some x \<longrightarrow> x \<in> o_id ` set (opportunities d)))"
  by (auto simp: foreign_keys_def list_all_iff split: option.splits)

lemma foreign_insert_opportunities:
  assumes "insert_opportunities uid now v d = Inr d'" and "foreign_keys d"
  shows "foreign_keys d'"
proof -
  from assms(1) obtain row where d': "d' = d\<lparr>opportunities := opportunities d @ [row]\<rparr>"
    and fk: "o_user_id row \<in> set (users d)"
    by (auto simp: insert_opportunities_def Let_def split: if_splits)
  from assms(2) fk show ?thesis by (auto simp: foreign_keys_iff d')
qed

lemma foreign_insert_phase_progress:
  assumes "insert_phase_progress uid v d = Inr d'" and "foreign_keys d"
  shows "foreign_keys d'"
  using assms
  by (auto simp: foreign_keys_iff insert_phase_progress_def Let_def split: if_splits)

lemma foreign_insert_artifacts:
  assumes "insert_artifacts uid now v d = Inr d'" and "foreign_keys d"
  shows "foreign_keys d'"
  using assms
  by (auto simp: foreign_keys_iff insert_artifacts_def Let_def split: if_splits)

lemma foreign_insert_active_opportunity:
  assumes "insert_active_opportunity uid now v d = Inr d'" and "foreign_keys d"
  shows "foreign_keys d'"
  using assms
  by (auto simp: foreign_keys_iff insert_active_opportunity_def Let_def split: if_splits)

lemma upsert_reference:
  assumes "upsert_active_opportunity uid now v d = Inr d'"
  shows "\<forall>x. col_value None (aov_opportunity_id v) = Some x \<longrightarrow> x \<in> o_id ` set (opportunities d)"
  using assms by (auto simp: upsert_active_opportunity_def Let_def split: if_splits)

lemma foreign_upsert_active_opportunity:
  assumes up: "upsert_active_opportunity uid now v d = Inr d'" and fk: "foreign_keys d"
  shows "foreign_keys d'"
  using up
proof (cases rule: upsert_cases)
  case (update f n)
  have "\<forall>r\<in>set (active_opportunity d). ao_user_id (f r) \<in> set (users d)
            \<and> (\<forall>x. ao_opportunity_id (f r) = Some x \<longrightarrow> x \<in> o_id ` set (opportunities d))"
  proof
    fix r assume r: "r \<in> set (active_opportunity d)"
    from fk r have old: "ao_user_id r \<in> set (users d)"
      "\<forall>x. ao_opportunity_id r = Some x \<longrightarrow> x \<in> o_id ` set (opportunities d)"
      by (simp_all add: foreign_keys_iff)
    from update(3) [of r] old(2) upsert_reference [OF up]
    have "\<forall>x. ao_opportunity_id (f r) = Some x \<longrightarrow> x \<in> o_id ` set (opportunities d)"
      by (elim disjE) simp_all
    with old(1) show "ao_user_id (f r) \<in> set (users d)
            \<and> (\<forall>x. ao_opportunity_id (f r) = Some x \<longrightarrow> x \<in> o_id ` set (opportunities d))"
      by (simp add: update(2))
  qed
  with fk show ?thesis by (simp add: foreign_keys_iff update(1))
next
  case (insert row n)
  from upsert_reference [OF up] insert(3,4) fk show ?thesis
    by (auto simp: foreign_keys_iff insert(1))
qed

lemma foreign_delete_opportunities:
  assumes fk: "foreign_keys d"
  shows "foreign_keys (delete_opportunities uid oid d)"
proof (cases "list_ex (\<lambda>r. o_id r = oid \<and> policy_user uid (Some (o_user_id r))) (opportunities d)")
  case False
  with fk show ?thesis by (simp add: delete_opportunities_def)
next
  case True
  let ?d = "delete_opportunities uid oid d"
  from True have o: "opportunities ?d
      = filter (\<lambda>r. \<not> (o_id r = oid \<and> policy_user uid (Some (o_user_id r)))) (opportunities d)"
    and p: "phase_progress ?d = filter (\<lambda>r. pp_opportunity_id r \<noteq> Some oid) (phase_progress d)"
    and a: "artifacts ?d = filter (\<lambda>r. a_opportunity_id r \<noteq> Some oid) (artifacts d)"
    and ao: "active_opportunity ?d
      = map (\<lambda>r. if ao_opportunity_id r = Some oid then r\<lparr>ao_opportunity_id := None\<rparr> else r)
          (active_opportunity d)"
    and us: "users ?d = users d"
    by (simp_all add: delete_opportunities_def)
  have keep: "\<And>x. x \<in> o_id ` set (opportunities d) \<Longrightarrow> x \<noteq> oid \<Longrightarrow> x \<in> o_id ` set (opportunities ?d)"
    unfolding o by auto
  show ?thesis
    unfolding foreign_keys_iff
  proof (intro conjI ballI allI impI)
    fix r assume "r \<in> set (opportunities ?d)"
    then have "r \<in> set (opportunities d)" by (simp add: o)
    with fk show "o_user_id r \<in> set (users ?d)" by (simp add: foreign_keys_iff us)
  next
    fix r x assume "r \<in> set (phase_progress ?d)" and x: "pp_opportunity_id r = Some x"
    then have "r \<in> set (phase_progress d)" "x \<noteq> oid" by (auto simp: p)
    with fk x show "x \<in> o_id ` set (opportunities ?d)" by (intro keep) (auto simp: foreign_keys_iff)
  next
    fix r x assume "r \<in> set (artifacts ?d)" and x: "a_opportunity_id r = Some x"
    then have "r \<in> set (artifacts d)" "x \<noteq> oid" by (auto simp: a)
    with fk x show "x \<in> o_id ` set (opportunities ?d)" by (intro keep) (auto simp: foreign_keys_iff)
  next
    fix r assume "r \<in> set (active_opportunity ?d)"
    then obtain r0 where r0: "r0 \<in> set (active_opportunity d)"
      and r: "r = (if ao_opportunity_id r0 = Some oid then r0\<lparr>ao_opportunity_id := None\<rparr> else r0)"
      unfolding ao by (auto simp only: set_map)
    from fk r0 show "ao_user_id r \<in> set (users ?d)" by (simp add: foreign_keys_iff us r)
  next
    fix r x assume "r \<in> set (active_opportunity ?d)" and x: "ao_opportunity_id r = Some x"
    then obtain r0 where r0: "r0 \<in> set (active_opportunity d)"
      and r: "r = (if ao_opportunity_id r0 = Some oid then r0\<lparr>ao_opportunity_id := None\<rparr> else r0)"
      unfolding ao by (auto simp only: set_map)
    from r x have "ao_opportunity_id r0 = Some x" "x \<noteq> oid"
      by (auto split: if_splits)
    with fk r0 show "x \<in> o_id ` set (opportunities ?d)" by (intro keep) (auto simp: foreign_keys_iff)
  qed
qed

lemma foreign_phase_progress_map:
  fixes f :: "phase_progress_row \<Rightarrow> phase_progress_row"
  assumes fk: "foreign_keys d" and d': "d' = d\<lparr>phase_progress := map f (phase_progress d)\<rparr>"
    and key: "\<And>r. pp_opportunity_id (f r) = pp_opportunity_id r"
  shows "foreign_keys d'"
  using fk by (simp add: foreign_keys_iff d' key)

lemma foreign_increment_artifacts_count:
  assumes "increment_artifacts_count uid oid p d = Inr d'" and fk: "foreign_keys d"
  shows "foreign_keys d'"
proof -
  let ?f = "\<lambda>r. if pp_opportunity_id r = Some oid \<and> pp_phase r = p
                     \<and> policy_opportunity d uid (pp_opportunity_id r)
                 then r\<lparr>pp_artifacts_count := map_option (\<lambda>n. n + 1) (pp_artifacts_count r)\<rparr>
                 else r"
  from assms(1) have d': "d' = d\<lparr>phase_progress := map ?f (phase_progress d)\<rparr>"
    by (simp add: increment_artifacts_count_def Let_def split: if_splits)
  show ?thesis by (rule foreign_phase_progress_map [OF fk d']) simp
qed

lemma foreign_update_phase_status:
  assumes fk: "foreign_keys d"
  shows "foreign_keys (update_phase_status uid oid p old new start d)"
proof -
  let ?f = "\<lambda>r. if pp_opportunity_id r = Some oid \<and> pp_phase r = p
                     \<and> pp_status r = old
                     \<and> policy_opportunity d uid (pp_opportunity_id r)
                  then r\<lparr>pp_status := new,
                         pp_start_date := (case start of None \<Rightarrow> pp_start_date r | Some t \<Rightarrow> Some t)\<rparr>
                  else r"
  have d': "update_phase_status uid oid p old new start d
      = d\<lparr>phase_progress := map ?f (phase_progress d)\<rparr>"
    by (simp add: update_phase_status_def)
  show ?thesis by (rule foreign_phase_progress_map [OF fk d']) simp
qed

lemma foreign_update_current_phase:
  assumes fk: "foreign_keys d"
  shows "foreign_keys (update_current_phase uid oid phase d)"
proof -
  let ?d = "update_current_phase uid oid phase d"
  let ?f = "\<lambda>r. if o_id r = oid \<and> policy_user uid (Some (o_user_id r))
                 then r\<lparr>o_current_phase := phase\<rparr> else r"
  have oo: "opportunities ?d = map ?f (opportunities d)"
    and rest: "artifacts ?d = artifacts d" "active_opportunity ?d = active_opportunity d"
      "phase_progress ?d = phase_progress d" "users ?d = users d"
    by (simp_all add: update_current_phase_def)
  have "map o_id (opportunities ?d) = map o_id (opportunities d)"
    unfolding oo by (rule map_key_map) simp
  then have ids: "o_id ` set (opportunities ?d) = o_id ` set (opportunities d)"
    by (metis set_map)
  have "map o_user_id (opportunities ?d) = map o_user_id (opportunities d)"
    unfolding oo by (rule map_key_map) simp
  then have "o_user_id ` set (opportunities ?d) = o_user_id ` set (opportunities d)"
    by (metis set_map)
  moreover from fk have "\<forall>u\<in>o_user_id ` set (opportunities d). u \<in> set (users d)"
    by (simp add: foreign_keys_iff)
  ultimately have "\<forall>u\<in>o_user_id ` set (opportunities ?d). u \<in> set (users d)"
    by simp
  then have us: "\<forall>r\<in>set (opportunities ?d). o_user_id r \<in> set (users d)"
    by blast
  from fk us show ?thesis
    unfolding foreign_keys_iff [of ?d] ids rest by (simp add: foreign_keys_iff)
qed

lemma exec_foreign_keys:
  assumes "exec uid now s d = Inr d'" and "foreign_keys d"
  shows "foreign_keys d'"
  using assms
  by (cases s)
    (auto simp: foreign_insert_opportunities foreign_insert_phase_progress foreign_insert_artifacts
      foreign_insert_active_opportunity foreign_upsert_active_opportunity
      foreign_delete_opportunities foreign_increment_artifacts_count
      foreign_update_phase_status foreign_update_current_phase)

lemma transaction_constraints:
  assumes "transaction uid now ss d = Inr d'" and "unique_keys d \<and> foreign_keys d"
  shows "unique_keys d' \<and> foreign_keys d'"
  using assms
proof (induction ss arbitrary: d)
  case Nil
  then show ?case by simp
next
  case (Cons s ss)
  from Cons.prems(1) obtain d1 where e: "exec uid now s d = Inr d1"
    and t: "transaction uid now ss d1 = Inr d'"
    by (auto split: sum.splits)
  from e Cons.prems(2) have "unique_keys d1 \<and> foreign_keys d1"
    using exec_unique_keys exec_foreign_keys by blast
  with t show ?case by (rule Cons.IH)
qed

lemma empty_db_constraints: "unique_keys (empty_db us) \<and> foreign_keys (empty_db us)"
  by (simp add: unique_keys_def foreign_keys_def empty_db_def)

lemma scenario_db_constraints: "unique_keys scenario_db \<and> foreign_keys scenario_db"
  by (simp add: unique_keys_def foreign_keys_def scenario_db_def scenario_phase_def)

text \<open>
  The policies do not keep a pointer on an opportunity of its owner; the service does:
  after an activation the pointer of the owner is on an opportunity the owner can read,
  and the pointers of the others are as they were.
\<close>

lemma activate_pointer_owned:
  assumes a: "activate (Some u) now oid d = Inr d'"
  shows "pointer_owned u d' \<and> (\<forall>u'. u' \<noteq> u \<and> pointer_owned u' d \<longrightarrow> pointer_owned u' d')"
proof -
  from a have vis: "filter (\<lambda>r. o_id r = oid) (select_opportunities (Some u) d) \<noteq> []"
    by (simp add: activate_def split: if_splits)
  then obtain r where "r \<in> set (opportunities d)" "o_id r = oid" "o_user_id r = u"
    by (auto simp: filter_empty_conv select_opportunities_def policy_user_def)
  then have pol: "policy_opportunity d (Some u) (Some oid)"
    unfolding policy_opportunity_iff by blast
  from a vis have up: "upsert_active_opportunity (Some u) now
      \<lparr> aov_user_id = VALUE (Some u), aov_opportunity_id = VALUE (Some oid),
        aov_updated_at = DEFAULT \<rparr> d = Inr d'"
    by (simp add: activate_def split: sum.splits)
  have o: "opportunities d' = opportunities d"
    using up unfolding upsert_pointer by (auto split: if_splits)
  have same: "\<And>w x. policy_opportunity d' w x = policy_opportunity d w x"
    by (simp add: policy_opportunity_def o)
  have rows: "(ao_user_id r' = u \<and> ao_opportunity_id r' = Some oid) \<or> r' \<in> set (active_opportunity d)"
    if r': "r' \<in> set (active_opportunity d')" for r'
    using activate_InrD [OF a]
  proof (elim disjE conjE exE)
    assume m: "active_opportunity d' =
              map (\<lambda>r. if ao_user_id r = u
                       then r\<lparr>ao_opportunity_id := Some oid, ao_updated_at := Some now\<rparr> else r)
                (active_opportunity d)"
    from r' obtain r0 where r0: "r0 \<in> set (active_opportunity d)"
      and e: "r' = (if ao_user_id r0 = u
                       then r0\<lparr>ao_opportunity_id := Some oid, ao_updated_at := Some now\<rparr> else r0)"
      unfolding m by (auto elim: imageE)
    show ?thesis
    proof (cases "ao_user_id r0 = u")
      case True
      with e show ?thesis by simp
    next
      case False
      with e r0 show ?thesis by simp
    qed
  next
    fix n assume m: "active_opportunity d' = active_opportunity d @
                [\<lparr> ao_id = n, ao_user_id = u, ao_opportunity_id = Some oid,
                   ao_updated_at = Some now \<rparr>]"
    from r' show ?thesis unfolding m by auto
  qed
  have 1: "pointer_owned u d'"
    unfolding pointer_owned_def list_all_iff
  proof (intro ballI impI)
    fix r' assume r': "r' \<in> set (active_opportunity d')" and ru: "ao_user_id r' = u"
    have "ao_opportunity_id r' = Some oid"
      using activate_InrD [OF a]
    proof (elim disjE conjE exE)
      assume m: "active_opportunity d' =
              map (\<lambda>r. if ao_user_id r = u
                       then r\<lparr>ao_opportunity_id := Some oid, ao_updated_at := Some now\<rparr> else r)
                (active_opportunity d)"
      from r' obtain r0 where r0: "r0 \<in> set (active_opportunity d)"
        and e: "r' = (if ao_user_id r0 = u
                       then r0\<lparr>ao_opportunity_id := Some oid, ao_updated_at := Some now\<rparr> else r0)"
        unfolding m by (auto elim: imageE)
      show ?thesis
      proof (cases "ao_user_id r0 = u")
        case True
        with e show ?thesis by simp
      next
        case False
        with e ru show ?thesis by simp
      qed
    next
      fix n assume nin: "u \<notin> set (map ao_user_id (active_opportunity d))"
        and m: "active_opportunity d' = active_opportunity d @
                [\<lparr> ao_id = n, ao_user_id = u, ao_opportunity_id = Some oid,
                   ao_updated_at = Some now \<rparr>]"
      from r' have "r' \<in> set (active_opportunity d) \<or> r' = \<lparr> ao_id = n, ao_user_id = u, ao_opportunity_id = Some oid,
                   ao_updated_at = Some now \<rparr>" unfolding m by auto
      then show ?thesis
      proof
        assume "r' \<in> set (active_opportunity d)"
        with ru nin show ?thesis by force
      next
        assume "r' = \<lparr> ao_id = n, ao_user_id = u, ao_opportunity_id = Some oid,
                   ao_updated_at = Some now \<rparr>"
        then show ?thesis by simp
      qed
    qed
    with pol show "ao_opportunity_id r' = None \<or> policy_opportunity d' (Some u) (ao_opportunity_id r')"
      by (simp add: same)
  qed
  have 2: "\<forall>u'. u' \<noteq> u \<and> pointer_owned u' d \<longrightarrow> pointer_owned u' d'"
  proof (intro allI impI)
    fix u' assume h: "u' \<noteq> u \<and> pointer_owned u' d"
    show "pointer_owned u' d'"
      unfolding pointer_owned_def list_all_iff
    proof (intro ballI impI)
      fix r' assume r': "r' \<in> set (active_opportunity d')" and ru: "ao_user_id r' = u'"
      from rows [OF r'] ru h have "r' \<in> set (active_opportunity d)" by blast
      with h ru show "ao_opportunity_id r' = None \<or> policy_opportunity d' (Some u') (ao_opportunity_id r')"
        unfolding pointer_owned_def list_all_iff same by blast
    qed
  qed
  from 1 2 show ?thesis by blast
qed

subsection \<open>The phase progress of every opportunity\<close>

lemma phases_complete_iff:
  "phases_complete d \<longleftrightarrow>
     (\<forall>r\<in>set (opportunities d). \<forall>p\<in>set PHASE_ORDER.
        length (filter (\<lambda>x. pp_opportunity_id x = Some (o_id r) \<and> pp_phase x = p)
                  (phase_progress d)) = 1)
     \<and> (\<forall>x\<in>set (phase_progress d). pp_phase x \<in> set PHASE_ORDER)"
  by (simp add: phases_complete_def list_all_iff)

lemma length_filter_map_key:
  "length (filter (\<lambda>k. k = a) (map f xs)) = length (filter (\<lambda>x. f x = a) xs)"
  by (induction xs) simp_all

lemma phases_complete_keys:
  "phases_complete d \<longleftrightarrow>
     (\<forall>i\<in>set (map o_id (opportunities d)). \<forall>p\<in>set PHASE_ORDER.
        length (filter (\<lambda>k. k = (Some i, p))
                  (map (\<lambda>r. (pp_opportunity_id r, pp_phase r)) (phase_progress d))) = 1)
     \<and> (\<forall>k\<in>set (map (\<lambda>r. (pp_opportunity_id r, pp_phase r)) (phase_progress d)).
           snd k \<in> set PHASE_ORDER)"
  unfolding phases_complete_iff length_filter_map_key by auto

lemma phases_complete_cong:
  assumes "map o_id (opportunities d') = map o_id (opportunities d)"
    and "map (\<lambda>r. (pp_opportunity_id r, pp_phase r)) (phase_progress d')
       = map (\<lambda>r. (pp_opportunity_id r, pp_phase r)) (phase_progress d)"
  shows "phases_complete d' = phases_complete d"
  unfolding phases_complete_keys assms ..

lemma phases_complete_create:
  assumes c: "createOpportunity uid now new_id name clientName description stakeholders d = Inr (d', opp)"
    and pc: "phases_complete d"
  shows "phases_complete d'"
proof -
  from createOpportunity_InrD [OF c] obtain u row rs where
    fresh: "new_id \<notin> set (map o_id (opportunities d))"
    and rowdef: "row = \<lparr> o_id = new_id, o_user_id = u, o_name = name, o_client_name = clientName,
              o_description = Some description, o_current_phase = js ''pre_assessment'',
              o_status = js ''active'', o_created_at = Some now, o_context_summary = Some [],
              o_stakeholders = Some stakeholders, o_key_insights = Some [] \<rparr>"
    and o: "opportunities d' = opportunities d @ [row]"
    and fr: "\<forall>p\<in>set PHASE_ORDER. \<not> list_ex (\<lambda>r. pp_opportunity_id r = Some new_id \<and> pp_phase r = p) (phase_progress d)"
    and p: "phase_progress d' = phase_progress d @ rs"
    and ph: "map pp_phase rs = PHASE_ORDER"
    and rs': "\<forall>r\<in>set rs. pp_opportunity_id r = Some new_id
              \<and> pp_status r = (if pp_phase r = js ''pre_assessment'' then js ''in_progress'' else js ''not_started'')
              \<and> pp_artifacts_count r = Some 0 \<and> pp_start_date r = None"
    by blast
  from rowdef have row: "o_id row = new_id" by simp
  from rs' have rs: "\<forall>r\<in>set rs. pp_opportunity_id r = Some new_id" by blast
  have own: "filter (\<lambda>x. pp_opportunity_id x = Some new_id \<and> pp_phase x = q) rs
      = filter (\<lambda>x. pp_phase x = q) rs" for q
    using rs by (auto intro: filter_cong)
  have other: "filter (\<lambda>x. pp_opportunity_id x = Some i \<and> pp_phase x = q) rs = []"
    if "i \<noteq> new_id" for i q
    using rs that by (auto simp: filter_empty_conv)
  have one: "length (filter (\<lambda>x. pp_phase x = q) rs) = 1" if "q \<in> set PHASE_ORDER" for q
  proof -
    have "distinct (map pp_phase rs)" unfolding ph by (rule PHASE_ORDER_distinct)
    from length_filter_key [OF this, of q] that show ?thesis
      by (simp add: ph [symmetric])
  qed
  show ?thesis
    unfolding phases_complete_iff
  proof (intro conjI ballI)
    fix r q assume r: "r \<in> set (opportunities d')" and q: "q \<in> set PHASE_ORDER"
    from r have "r \<in> set (opportunities d) \<or> r = row" by (auto simp: o)
    then show "length (filter (\<lambda>x. pp_opportunity_id x = Some (o_id r) \<and> pp_phase x = q)
                  (phase_progress d')) = 1"
    proof
      assume old: "r \<in> set (opportunities d)"
      with fresh have "o_id r \<noteq> new_id" by auto
      from other [OF this] pc old q show ?thesis
        by (simp add: p phases_complete_iff)
    next
      assume "r = row"
      then have i: "o_id r = new_id" by (simp add: row)
      from fr q have "filter (\<lambda>x. pp_opportunity_id x = Some new_id \<and> pp_phase x = q)
          (phase_progress d) = []"
        by (auto simp: list_ex_iff filter_empty_conv)
      with one [OF q] show ?thesis by (simp add: p i own)
    qed
  next
    fix x assume "x \<in> set (phase_progress d')"
    then have "x \<in> set (phase_progress d) \<or> x \<in> set rs" by (auto simp: p)
    then show "pp_phase x \<in> set PHASE_ORDER"
    proof
      assume "x \<in> set (phase_progress d)"
      with pc show ?thesis by (simp add: phases_complete_iff)
    next
      assume "x \<in> set rs"
      then have "pp_phase x \<in> set (map pp_phase rs)" by simp
      then show ?thesis by (simp only: ph)
    qed
  qed
qed

lemma phases_complete_delete:
  assumes dist: "distinct (map o_id (opportunities d))" and pc: "phases_complete d"
  shows "phases_complete (delete_opportunities uid oid d)"
proof (cases "list_ex (\<lambda>r. o_id r = oid \<and> policy_user uid (Some (o_user_id r))) (opportunities d)")
  case False
  with pc show ?thesis by (simp add: delete_opportunities_def)
next
  case True
  then obtain r1 where r1: "r1 \<in> set (opportunities d)" "o_id r1 = oid"
    "policy_user uid (Some (o_user_id r1))"
    by (auto simp: list_ex_iff)
  let ?d = "delete_opportunities uid oid d"
  have o: "opportunities ?d =
      filter (\<lambda>r. \<not> (o_id r = oid \<and> policy_user uid (Some (o_user_id r)))) (opportunities d)"
    and p: "phase_progress ?d = filter (\<lambda>r. pp_opportunity_id r \<noteq> Some oid) (phase_progress d)"
    using True by (simp_all add: delete_opportunities_def)
  show ?thesis
    unfolding phases_complete_iff
  proof (intro conjI ballI)
    fix r q assume r: "r \<in> set (opportunities ?d)" and q: "q \<in> set PHASE_ORDER"
    from r have rin: "r \<in> set (opportunities d)"
      and keep: "\<not> (o_id r = oid \<and> policy_user uid (Some (o_user_id r)))"
      by (simp_all add: o)
    have ne: "o_id r \<noteq> oid"
    proof
      assume "o_id r = oid"
      with dist rin r1 have "r = r1" by (metis distinct_map inj_onD)
      with keep r1 show False by simp
    qed
    have "filter (\<lambda>x. pp_opportunity_id x = Some (o_id r) \<and> pp_phase x = q) (phase_progress ?d)
        = filter (\<lambda>x. pp_opportunity_id x = Some (o_id r) \<and> pp_phase x = q) (phase_progress d)"
      unfolding p filter_filter using ne by (intro filter_cong) auto
    with pc rin q show "length (filter (\<lambda>x. pp_opportunity_id x = Some (o_id r) \<and> pp_phase x = q)
                  (phase_progress ?d)) = 1"
      by (simp add: phases_complete_iff)
  next
    fix x assume "x \<in> set (phase_progress ?d)"
    with pc show "pp_phase x \<in> set PHASE_ORDER" by (simp add: p phases_complete_iff)
  qed
qed

lemma files_keys:
  assumes "files_artifact t" and "transaction uid now t d = Inr d'"
  shows "opportunities d' = opportunities d
       \<and> map (\<lambda>r. (pp_opportunity_id r, pp_phase r)) (phase_progress d')
         = map (\<lambda>r. (pp_opportunity_id r, pp_phase r)) (phase_progress d)"
proof -
  from assms obtain v oid p where t: "t = [INSERT_artifacts v, CALL_increment_artifacts_count oid p]"
    and k: "col_value None (av_opportunity_id v) = Some oid" "col_value None (av_phase v) = Some p"
    and r: "transaction uid now t d = Inr d'"
    by (auto elim: files_artifact.elims)
  note one = files_one_step [OF r [unfolded t] k]
  from one have o: "opportunities d' = opportunities d" by simp
  from one have p: "phase_progress d' =
           map (\<lambda>r. if pp_opportunity_id r = Some oid \<and> pp_phase r = p
                    then r\<lparr>pp_artifacts_count := map_option (\<lambda>n. n + 1) (pp_artifacts_count r)\<rparr>
                    else r) (phase_progress d)"
    by simp
  have "map (\<lambda>r. (pp_opportunity_id r, pp_phase r)) (phase_progress d')
         = map (\<lambda>r. (pp_opportunity_id r, pp_phase r)) (phase_progress d)"
    unfolding p by (induction "phase_progress d") simp_all
  with o show ?thesis by simp
qed

lemma changePhase_InrD:
  assumes "changePhase uid now oid targetPhase d = Inr d'"
  shows "\<exists>r0 rest. filter (\<lambda>r. o_id r = oid) (select_opportunities uid d) = r0 # rest
       \<and> targetPhase \<in> set PHASE_ORDER"
  using assms by (auto simp: changePhase_def split: if_splits list.splits)

lemma changePhase_keys:
  assumes c: "changePhase uid now oid targetPhase d = Inr d'"
  shows "map o_id (opportunities d') = map o_id (opportunities d)
       \<and> map (\<lambda>r. (pp_opportunity_id r, pp_phase r)) (phase_progress d')
         = map (\<lambda>r. (pp_opportunity_id r, pp_phase r)) (phase_progress d)"
proof -
  from changePhase_InrD [OF c] obtain r0 rest where
    vis: "filter (\<lambda>r. o_id r = oid) (select_opportunities uid d) = r0 # rest"
    and target: "targetPhase \<in> set PHASE_ORDER"
    by blast
  from c changePhase_result [OF vis target, of now] have d': "d' = d\<lparr>opportunities :=
              map (\<lambda>r. if o_id r = oid \<and> policy_user uid (Some (o_user_id r))
                       then r\<lparr>o_current_phase := targetPhase\<rparr> else r) (opportunities d),
            phase_progress :=
              map (\<lambda>r. if pp_opportunity_id r = Some oid \<and> pp_phase r = o_current_phase r0
                          \<and> pp_status r = js ''in_progress''
                       then r\<lparr>pp_status := js ''completed''\<rparr>
                       else if pp_opportunity_id r = Some oid \<and> pp_phase r = targetPhase
                          \<and> pp_status r = js ''not_started''
                       then r\<lparr>pp_status := js ''in_progress'', pp_start_date := Some now\<rparr>
                       else r) (phase_progress d)\<rparr>"
    by simp
  have "opportunities d' =
      map (\<lambda>r. if o_id r = oid \<and> policy_user uid (Some (o_user_id r))
               then r\<lparr>o_current_phase := targetPhase\<rparr> else r) (opportunities d)"
    by (simp add: d')
  then have 1: "map o_id (opportunities d') = map o_id (opportunities d)"
    by (simp only: map_o_id_current_phase)
  have 2: "map (\<lambda>r. (pp_opportunity_id r, pp_phase r)) (phase_progress d')
         = map (\<lambda>r. (pp_opportunity_id r, pp_phase r)) (phase_progress d)"
    unfolding d' by (induction "phase_progress d") simp_all
  from 1 2 show ?thesis by simp
qed

lemma activate_keys:
  assumes "activate uid now oid d = Inr d'"
  shows "opportunities d' = opportunities d \<and> phase_progress d' = phase_progress d"
proof -
  from assms have "upsert_active_opportunity uid now
      \<lparr> aov_user_id = VALUE uid, aov_opportunity_id = VALUE (Some oid),
        aov_updated_at = DEFAULT \<rparr> d = Inr d'"
    by (simp add: activate_def split: if_splits sum.splits)
  then show ?thesis by (cases rule: upsert_cases) simp_all
qed

lemma sequences_of_rows:
  "opportunities (sequences_of x d) = opportunities d"
  "phase_progress (sequences_of x d) = phase_progress d"
  "artifacts (sequences_of x d) = artifacts d"
  "active_opportunity (sequences_of x d) = active_opportunity d"
  "users (sequences_of x d) = users d"
  by (simp_all add: sequences_of_def)

lemma sequences_of_constraints:
  "unique_keys (sequences_of x d) = unique_keys d"
  "foreign_keys (sequences_of x d) = foreign_keys d"
  "phases_complete (sequences_of x d) = phases_complete d"
  by (simp_all add: unique_keys_def foreign_keys_iff phases_complete_def sequences_of_rows)

lemma rolled_back_rows: "\<exists>x. rolled_back uid now ss d0 d = sequences_of x d0"
  by (induction ss arbitrary: d) (auto split: sum.splits)

lemma failed_rows: "\<exists>x. failed uid now c d = sequences_of x d"
proof -
  have same: "\<exists>x. d = sequences_of x d"
    using sequences_of_same [of d d] by metis
  show ?thesis
    by (cases c) (simp_all add: same rolled_back_rows del: rolled_back.simps)
qed

lemma perform_transaction:
  assumes "perform uid now c d = Inr d'"
  shows "\<exists>ss. transaction uid now ss d = Inr d'"
proof (cases c)
  case (CreateOpportunity new_id name clientName description stakeholders)
  with assms have "transaction uid now
      (create_statements uid new_id name clientName description stakeholders) d = Inr d'"
    by (auto simp: createOpportunity_def split: if_splits sum.splits)
  then show ?thesis ..
next
  case (AddArtifact new_id oid artifactType title content phase tags)
  with assms addArtifact_files show ?thesis by fastforce
next
  case (ChangePhase oid targetPhase)
  with assms show ?thesis
    by (auto simp: changePhase_def simp del: transaction.simps
        split: if_splits list.splits sum.splits)
next
  case (ActivateOpportunity oid)
  with assms have "transaction uid now
      [UPSERT_active_opportunity
         \<lparr> aov_user_id = VALUE uid, aov_opportunity_id = VALUE (Some oid),
           aov_updated_at = DEFAULT \<rparr>] d = Inr d'"
    by (auto simp: activate_def split: if_splits sum.splits)
  then show ?thesis ..
next
  case (DeleteOpportunity oid)
  with assms have "transaction uid now [DELETE_opportunities oid] d = Inr d'"
    by (auto simp: deleteOpportunity_def split: if_splits)
  then show ?thesis ..
qed

lemma perform_phases_complete:
  assumes p: "perform uid now c d = Inr d'" and u: "unique_keys d" and pc: "phases_complete d"
  shows "phases_complete d'"
proof (cases c)
  case (CreateOpportunity new_id name clientName description stakeholders)
  with p obtain opp where
    "createOpportunity uid now new_id name clientName description stakeholders d = Inr (d', opp)"
    by (cases "createOpportunity uid now new_id name clientName description stakeholders d") auto
  then show ?thesis using pc by (rule phases_complete_create)
next
  case (AddArtifact new_id oid artifactType title content phase tags)
  with p have "addArtifact uid now new_id oid artifactType title content phase tags d = Inr d'"
    by simp
  from addArtifact_files [OF this] obtain t where "files_artifact t"
    "transaction uid now t d = Inr d'"
    by blast
  from files_keys [OF this] pc show ?thesis
    by (simp add: phases_complete_cong [of d' d])
next
  case (ChangePhase oid targetPhase)
  with p have "changePhase uid now oid targetPhase d = Inr d'" by simp
  from changePhase_keys [OF this] pc show ?thesis
    by (simp add: phases_complete_cong [of d' d])
next
  case (ActivateOpportunity oid)
  with p have "activate uid now oid d = Inr d'" by simp
  from activate_keys [OF this] pc show ?thesis
    by (simp add: phases_complete_cong [of d' d])
next
  case (DeleteOpportunity oid)
  with p have "d' = delete_opportunities uid oid d"
    by (auto simp: deleteOpportunity_def split: if_splits)
  with phases_complete_delete [OF unique_keysD(1) [OF u] pc] show ?thesis by simp
qed

lemma serve_constraints:
  assumes "unique_keys d \<and> foreign_keys d \<and> phases_complete d"
  shows "unique_keys (serve uid now c d) \<and> foreign_keys (serve uid now c d)
       \<and> phases_complete (serve uid now c d)"
proof (cases "perform uid now c d")
  case (Inl e)
  from failed_rows obtain x where "failed uid now c d = sequences_of x d" by blast
  with Inl assms show ?thesis by (simp add: serve_def sequences_of_constraints)
next
  case (Inr d')
  from perform_transaction [OF Inr] obtain ss where "transaction uid now ss d = Inr d'" ..
  from transaction_constraints [OF this] assms have "unique_keys d' \<and> foreign_keys d'" by blast
  moreover from perform_phases_complete [OF Inr] assms have "phases_complete d'" by blast
  ultimately show ?thesis using Inr by (simp add: serve_def)
qed

lemma serve_all_constraints:
  assumes "unique_keys d \<and> foreign_keys d \<and> phases_complete d"
  shows "unique_keys (serve_all cs d) \<and> foreign_keys (serve_all cs d)
       \<and> phases_complete (serve_all cs d)"
  using assms
proof (induction cs arbitrary: d)
  case Nil
  then show ?case by simp
next
  case (Cons x cs)
  obtain uid now c where x: "x = (uid, now, c)" by (cases x)
  from Cons.IH [OF serve_constraints [OF Cons.prems, of uid now c]]
  show ?case by (simp add: x)
qed

lemma empty_db_phases_complete: "phases_complete (empty_db us)"
  by (simp add: phases_complete_def empty_db_def)

text \<open>
  Claim C5. In every database the service produces from the empty one, by any calls of any
  users, every opportunity has exactly one phase-progress row for each phase of
  \<open>PHASE_ORDER\<close>, and the pair (opportunity, phase) is unique in the table. The rows come
  with the opportunity, in one transaction: after a successful creation there is one more
  opportunity and, for every phase, exactly one row keyed by the new opportunity and that
  phase; after a creation that failed there is no new opportunity and no new row. An
  owner's insert of a second row for a pair that has one is refused with a uniqueness
  violation, which the store reports as \<open>Conflict\<close>, and no row of the database is changed:
  the database is as it was but for the value the refused insert took from the sequence
  of keys.
\<close>

theorem C5_one_phase_progress_per_phase:
  "phases_complete (serve_all cs (empty_db us))
   \<and> unique_keys (serve_all cs (empty_db us))
   \<and> (createOpportunity uid now new_id name clientName description stakeholders d = Inr (d', opp)
      \<longrightarrow> serve uid now (CreateOpportunity new_id name clientName description stakeholders) d = d'
          \<and> length (opportunities d') = length (opportunities d) + 1
          \<and> (\<forall>p\<in>set PHASE_ORDER.
                length (filter (\<lambda>r. pp_opportunity_id r = Some new_id \<and> pp_phase r = p)
                          (phase_progress d')) = 1))
   \<and> (createOpportunity uid now new_id name clientName description stakeholders d = Inl e
      \<longrightarrow> opportunities
            (serve uid now (CreateOpportunity new_id name clientName description stakeholders) d)
            = opportunities d
          \<and> phase_progress
              (serve uid now (CreateOpportunity new_id name clientName description stakeholders) d)
            = phase_progress d)
   \<and> (policy_opportunity d uid (Some oid)
        \<and> list_ex (\<lambda>r. pp_opportunity_id r = Some oid \<and> pp_phase r = p) (phase_progress d)
        \<and> col_value None (ppv_opportunity_id v) = Some oid \<and> col_value None (ppv_phase v) = Some p
        \<and> col_value (Some (js ''not_started'')) (ppv_status v) \<noteq> None
        \<and> int4 (col_value (Some 0) (ppv_artifacts_count v))
        \<and> int4 (col_value (Some 0) (ppv_completion_percentage v))
      \<longrightarrow> insert_phase_progress uid v d = Inl unique_violation
          \<and> store_error unique_violation = Conflict
          \<and> run_all uid now [[INSERT_phase_progress v]] d
              = d\<lparr>phase_progress_id_seq := phase_progress_id_seq d + 1\<rparr>)"
proof (intro conjI impI)
  have e: "unique_keys (empty_db us) \<and> foreign_keys (empty_db us) \<and> phases_complete (empty_db us)"
    using empty_db_constraints [of us] empty_db_phases_complete [of us] by simp
  from serve_all_constraints [OF e, of cs]
  show "phases_complete (serve_all cs (empty_db us))"
    and "unique_keys (serve_all cs (empty_db us))"
    by simp_all
next
  assume c: "createOpportunity uid now new_id name clientName description stakeholders d = Inr (d', opp)"
  then show "serve uid now (CreateOpportunity new_id name clientName description stakeholders) d = d'"
    by (simp add: serve_def)
  from createOpportunity_InrD [OF c] obtain rs where
    o: "length (opportunities d') = length (opportunities d) + 1"
    and fr: "\<forall>p\<in>set PHASE_ORDER. \<not> list_ex (\<lambda>r. pp_opportunity_id r = Some new_id \<and> pp_phase r = p) (phase_progress d)"
    and rs: "phase_progress d' = phase_progress d @ rs" "map pp_phase rs = PHASE_ORDER"
      "\<forall>r\<in>set rs. pp_opportunity_id r = Some new_id"
    by auto
  show "length (opportunities d') = length (opportunities d) + 1" by (rule o)
  show "\<forall>p\<in>set PHASE_ORDER.
          length (filter (\<lambda>r. pp_opportunity_id r = Some new_id \<and> pp_phase r = p) (phase_progress d')) = 1"
  proof
    fix p assume p: "p \<in> set PHASE_ORDER"
    from fr p have old: "filter (\<lambda>r. pp_opportunity_id r = Some new_id \<and> pp_phase r = p) (phase_progress d) = []"
      by (auto simp: list_ex_iff filter_empty_conv)
    from rs(3) have "filter (\<lambda>r. pp_opportunity_id r = Some new_id \<and> pp_phase r = p) rs
        = filter (\<lambda>r. pp_phase r = p) rs"
      by (auto intro: filter_cong)
    moreover have "length (filter (\<lambda>r. pp_phase r = p) rs) = 1"
      using length_filter_key [of pp_phase rs p] rs(2) p PHASE_ORDER_distinct
      by (metis image_set)
    ultimately show "length (filter (\<lambda>r. pp_opportunity_id r = Some new_id \<and> pp_phase r = p) (phase_progress d')) = 1"
      by (simp add: rs(1) old)
  qed
next
  assume c: "createOpportunity uid now new_id name clientName description stakeholders d = Inl e"
  from failed_rows obtain x where
    "failed uid now (CreateOpportunity new_id name clientName description stakeholders) d
      = sequences_of x d"
    by blast
  with c show "opportunities
            (serve uid now (CreateOpportunity new_id name clientName description stakeholders) d)
            = opportunities d"
    and "phase_progress
              (serve uid now (CreateOpportunity new_id name clientName description stakeholders) d)
            = phase_progress d"
    by (simp_all add: serve_def sequences_of_rows)
next
  assume h: "policy_opportunity d uid (Some oid)
        \<and> list_ex (\<lambda>r. pp_opportunity_id r = Some oid \<and> pp_phase r = p) (phase_progress d)
        \<and> col_value None (ppv_opportunity_id v) = Some oid \<and> col_value None (ppv_phase v) = Some p
        \<and> col_value (Some (js ''not_started'')) (ppv_status v) \<noteq> None
        \<and> int4 (col_value (Some 0) (ppv_artifacts_count v))
        \<and> int4 (col_value (Some 0) (ppv_completion_percentage v))"
  then show i: "insert_phase_progress uid v d = Inl unique_violation"
    by (simp add: insert_phase_progress_def Let_def)
  show "store_error unique_violation = Conflict" by simp
  from i show "run_all uid now [[INSERT_phase_progress v]] d
      = d\<lparr>phase_progress_id_seq := phase_progress_id_seq d + 1\<rparr>"
    by (simp add: sequences_of_def)
qed

theorem C5_one_phase_progress_per_phase_witness:
  "(\<exists>d'. serve_all
            [(Some 1, 100, CreateOpportunity (js ''o3'') (js ''Acme Transformation'')
                             (js ''Acme Corp'') (js ''Digital transformation'') [])]
            (empty_db [1]) = d'
         \<and> phases_complete d' \<and> length (opportunities d') = 1
         \<and> length (filter (\<lambda>r. pp_opportunity_id r = Some (js ''o3'')
                                \<and> pp_phase r = js ''discovery'') (phase_progress d')) = 1)
   \<and> insert_phase_progress (Some 1) (initial_phase_progress (js ''o1'') (js ''discovery''))
       scenario_db = Inl unique_violation
   \<and> run_all (Some 1) 103
       [[INSERT_phase_progress (initial_phase_progress (js ''o1'') (js ''discovery''))]]
       scenario_db
     = scenario_db\<lparr>phase_progress_id_seq := phase_progress_id_seq scenario_db + 1\<rparr>"
proof -
  let ?c = "CreateOpportunity (js ''o3'') (js ''Acme Transformation'')
              (js ''Acme Corp'') (js ''Digital transformation'') []"
  have "\<exists>d' opp.
       createOpportunity (Some 1) 100 (js ''o3'') (js ''Acme Transformation'') (js ''Acme Corp'')
         (js ''Digital transformation'') [] (empty_db [1]) = Inr (d', opp)"
  proof (rule createOpportunity_succeeds)
    show "\<not> not_trim (js ''Acme Transformation'')"
      by (simp add: not_trim_iff is_white_space_def js_def)
    show "\<not> not_trim (js ''Acme Corp'')"
      by (simp add: not_trim_iff is_white_space_def js_def)
    show "\<not> not_trim (js ''Digital transformation'')"
      by (simp add: not_trim_iff is_white_space_def js_def)
    show "1 \<in> set (users (empty_db [1]))" by (simp add: empty_db_def)
    show "js ''o3'' \<notin> set (map o_id (opportunities (empty_db [1])))"
      by (simp add: empty_db_def)
    show "foreign_keys (empty_db [1])" by (simp add: foreign_keys_def empty_db_def)
  qed
  then obtain d' opp where c:
    "createOpportunity (Some 1) 100 (js ''o3'') (js ''Acme Transformation'') (js ''Acme Corp'')
         (js ''Digital transformation'') [] (empty_db [1]) = Inr (d', opp)"
    by blast
  have p: "js ''discovery'' \<in> set PHASE_ORDER" by (simp add: PHASE_ORDER_def)
  note thm1 = C5_one_phase_progress_per_phase
    [where uid = "Some 1" and now = 100 and new_id = "js ''o3''" and d = "empty_db [1]"
       and d' = d' and opp = opp and name = "js ''Acme Transformation''"
       and clientName = "js ''Acme Corp''" and description = "js ''Digital transformation''"
       and stakeholders = "[]" and us = "[1]" and cs = "[(Some 1, 100, ?c)]"]
  from thm1 have pc: "phases_complete (serve_all [(Some 1, 100, ?c)] (empty_db [1]))" by blast
  from thm1 c have s: "serve (Some 1) 100 ?c (empty_db [1]) = d'" by blast
  from thm1 c have l: "length (opportunities d') = length (opportunities (empty_db [1])) + 1"
    by blast
  from thm1 c p
  have one: "length (filter (\<lambda>r. pp_opportunity_id r = Some (js ''o3'') \<and> pp_phase r = js ''discovery'')
                   (phase_progress d')) = 1"
    by blast
  have sa: "serve_all [(Some 1, 100, ?c)] (empty_db [1]) = d'" using s by simp
  have first: "\<exists>d'. serve_all [(Some 1, 100, ?c)] (empty_db [1]) = d'
         \<and> phases_complete d' \<and> length (opportunities d') = 1
         \<and> length (filter (\<lambda>r. pp_opportunity_id r = Some (js ''o3'')
                                \<and> pp_phase r = js ''discovery'') (phase_progress d')) = 1"
  proof (intro exI [where x = d'] conjI)
    show "serve_all [(Some 1, 100, ?c)] (empty_db [1]) = d'" by (rule sa)
    from pc show "phases_complete d'" by (simp only: sa)
    from l show "length (opportunities d') = 1" by (simp add: empty_db_def)
    show "length (filter (\<lambda>r. pp_opportunity_id r = Some (js ''o3'')
                                \<and> pp_phase r = js ''discovery'') (phase_progress d')) = 1"
      by (rule one)
  qed
  have hyp: "policy_opportunity scenario_db (Some 1) (Some (js ''o1''))
        \<and> list_ex (\<lambda>r. pp_opportunity_id r = Some (js ''o1'') \<and> pp_phase r = js ''discovery'')
             (phase_progress scenario_db)
        \<and> col_value None (ppv_opportunity_id (initial_phase_progress (js ''o1'') (js ''discovery'')))
            = Some (js ''o1'')
        \<and> col_value None (ppv_phase (initial_phase_progress (js ''o1'') (js ''discovery'')))
            = Some (js ''discovery'')
        \<and> col_value (Some (js ''not_started''))
             (ppv_status (initial_phase_progress (js ''o1'') (js ''discovery''))) \<noteq> None
        \<and> int4 (col_value (Some 0)
             (ppv_artifacts_count (initial_phase_progress (js ''o1'') (js ''discovery''))))
        \<and> int4 (col_value (Some 0)
             (ppv_completion_percentage (initial_phase_progress (js ''o1'') (js ''discovery''))))"
    by (simp add: scenario_db_def scenario_phase_def policy_opportunity_def
        initial_phase_progress_def PHASE_ORDER_def int4_def)
  note thm2 = C5_one_phase_progress_per_phase
      [where uid = "Some 1" and d = scenario_db and oid = "js ''o1''" and p = "js ''discovery''"
         and v = "initial_phase_progress (js ''o1'') (js ''discovery'')" and now = 103]
  from thm2 hyp have second:
    "insert_phase_progress (Some 1) (initial_phase_progress (js ''o1'') (js ''discovery''))
       scenario_db = Inl unique_violation"
    by blast
  from thm2 hyp have third:
    "run_all (Some 1) 103
       [[INSERT_phase_progress (initial_phase_progress (js ''o1'') (js ''discovery''))]]
       scenario_db
     = scenario_db\<lparr>phase_progress_id_seq := phase_progress_id_seq scenario_db + 1\<rparr>"
    by blast
  from first second third show ?thesis by (intro conjI)
qed

end
